theory Spec2Isabelle
  imports Main "HOL-Library.Word"
begin

unbundle bit_operations_syntax

section \<open>Go values\<close>

text \<open>
  Machine integers are words. A Go \<^verbatim>\<open>error\<close> value is either the kernel's
  \<^verbatim>\<open>fuse.ENOENT\<close> or some other error, kept by its text. A call of the program ends in
  one of four ways: it returns a value, it returns an error, it stops the process
  (\<^verbatim>\<open>zap.L().Fatal\<close>), or it panics.
\<close>

type_synonym u8 = "8 word"
type_synonym u32 = "32 word"
type_synonym u64 = "64 word"
type_synonym i64 = "64 word"
type_synonym bytes = "u8 list"

datatype error = ENOENT | ErrorString string

datatype panic =
    IndexOutOfRange
  | NilInterfaceConversion
  | WrongTypeConversion
  | NilDereference
  | NilMapAssignment
  | SendOnClosedChannel
  | CloseOfClosedChannel

datatype 'a result = Ok 'a | Failed error | Fatal | Panic panic

section \<open>Packets and the frame codec\<close>

subsection \<open>Op codes\<close>

text \<open>
  The constants of package \<^verbatim>\<open>ifs\<close> that name the op codes are declared outside the
  files at hand, so the table of op codes is a parameter of the model. The fields carry
  the names the code uses.
\<close>

record opcodes =
  AttrRequest :: u8
  ReadDirRequest :: u8
  ReadDirAllRequest :: u8
  FetchFileRequest :: u8
  ReadFileRequest :: u8
  WriteFileRequest :: u8
  SetAttrRequest :: u8
  CreateRequest :: u8
  RemoveRequest :: u8
  RenameRequest :: u8
  OpenRequest :: u8
  CloseRequest :: u8
  StatResponse :: u8
  StatsResponse :: u8
  FileDataResponse :: u8
  WriteResponse :: u8
  ErrorResponse :: u8

subsection \<open>Payload records\<close>

text \<open>
  The record types whose fields the code at hand reads are records; the others are
  only allocated and handed to the decoder, and stay abstract.
\<close>

record RemotePath =
  Hostname :: string
  Port :: nat
  Path :: string

record Stat =
  Name :: string
  IsDir :: bool
  Mode :: u32
  Size :: i64
  ModTime :: i64

record DirInfo =
  Stats :: "Stat list"

record Error =
  Err :: error

typedecl ReadDirInfo
typedecl ReadInfo
typedecl WriteInfo
typedecl AttrInfo
typedecl CreateInfo
typedecl RenameInfo
typedecl OpenInfo
typedecl CloseInfo
typedecl FileChunk
typedecl WriteResult

text \<open>
  \<^verbatim>\<open>type Payload interface {}\<close>: a value of any dynamic type. The dynamic types that
  occur are the pointers that \<^verbatim>\<open>Unmarshal\<close> allocates, the nil interface, and the
  struct value \<^verbatim>\<open>Error\<close> that the node layer asserts with \<^verbatim>\<open>resp.Data.(Error)\<close>.
  A pointer is modelled by the record it points to.
\<close>

datatype Payload =
    NilPayload
  | PtrRemotePath RemotePath
  | PtrReadDirInfo ReadDirInfo
  | PtrReadInfo ReadInfo
  | PtrWriteInfo WriteInfo
  | PtrAttrInfo AttrInfo
  | PtrCreateInfo CreateInfo
  | PtrRenameInfo RenameInfo
  | PtrOpenInfo OpenInfo
  | PtrCloseInfo CloseInfo
  | PtrStat Stat
  | PtrDirInfo DirInfo
  | PtrFileChunk FileChunk
  | PtrWriteResult WriteResult
  | PtrError Error
  | ValError Error

text \<open>The Go type of the zero record that \<^verbatim>\<open>Unmarshal\<close> allocates as decode target.\<close>

datatype gotype =
    T_RemotePath
  | T_ReadDirInfo
  | T_ReadInfo
  | T_WriteInfo
  | T_AttrInfo
  | T_CreateInfo
  | T_RenameInfo
  | T_OpenInfo
  | T_CloseInfo
  | T_Stat
  | T_DirInfo
  | T_FileChunk
  | T_WriteResult
  | T_Error

record Packet =
  ConnId :: u8
  Flags :: u8
  PacketId :: u64
  Op :: u8
  Data :: Payload

subsection \<open>The record encoder\<close>

text \<open>
  \<^verbatim>\<open>msgpack.Marshal\<close> and \<^verbatim>\<open>msgpack.Unmarshal\<close> belong to a library; the model
  takes them as a parameter. \<^verbatim>\<open>msgpack.Unmarshal(payload, struc)\<close> fills the record
  that \<^verbatim>\<open>struc\<close> points to and cannot change its type, so the parameter holds one
  decoder for each target type, and one answer for the nil target.
\<close>

record msgpack =
  mp_Marshal :: "Payload \<Rightarrow> error + bytes"
  mp_nil :: "bytes \<Rightarrow> error option"
  mp_RemotePath :: "bytes \<Rightarrow> error + RemotePath"
  mp_ReadDirInfo :: "bytes \<Rightarrow> error + ReadDirInfo"
  mp_ReadInfo :: "bytes \<Rightarrow> error + ReadInfo"
  mp_WriteInfo :: "bytes \<Rightarrow> error + WriteInfo"
  mp_AttrInfo :: "bytes \<Rightarrow> error + AttrInfo"
  mp_CreateInfo :: "bytes \<Rightarrow> error + CreateInfo"
  mp_RenameInfo :: "bytes \<Rightarrow> error + RenameInfo"
  mp_OpenInfo :: "bytes \<Rightarrow> error + OpenInfo"
  mp_CloseInfo :: "bytes \<Rightarrow> error + CloseInfo"
  mp_Stat :: "bytes \<Rightarrow> error + Stat"
  mp_DirInfo :: "bytes \<Rightarrow> error + DirInfo"
  mp_FileChunk :: "bytes \<Rightarrow> error + FileChunk"
  mp_WriteResult :: "bytes \<Rightarrow> error + WriteResult"
  mp_Error :: "bytes \<Rightarrow> error + Error"

fun msgpack_Unmarshal :: "msgpack \<Rightarrow> bytes \<Rightarrow> gotype option \<Rightarrow> error + Payload" where
  "msgpack_Unmarshal mp b None = (case mp_nil mp b of Some e \<Rightarrow> Inl e | None \<Rightarrow> Inr NilPayload)"
| "msgpack_Unmarshal mp b (Some T_RemotePath) = map_sum id PtrRemotePath (mp_RemotePath mp b)"
| "msgpack_Unmarshal mp b (Some T_ReadDirInfo) = map_sum id PtrReadDirInfo (mp_ReadDirInfo mp b)"
| "msgpack_Unmarshal mp b (Some T_ReadInfo) = map_sum id PtrReadInfo (mp_ReadInfo mp b)"
| "msgpack_Unmarshal mp b (Some T_WriteInfo) = map_sum id PtrWriteInfo (mp_WriteInfo mp b)"
| "msgpack_Unmarshal mp b (Some T_AttrInfo) = map_sum id PtrAttrInfo (mp_AttrInfo mp b)"
| "msgpack_Unmarshal mp b (Some T_CreateInfo) = map_sum id PtrCreateInfo (mp_CreateInfo mp b)"
| "msgpack_Unmarshal mp b (Some T_RenameInfo) = map_sum id PtrRenameInfo (mp_RenameInfo mp b)"
| "msgpack_Unmarshal mp b (Some T_OpenInfo) = map_sum id PtrOpenInfo (mp_OpenInfo mp b)"
| "msgpack_Unmarshal mp b (Some T_CloseInfo) = map_sum id PtrCloseInfo (mp_CloseInfo mp b)"
| "msgpack_Unmarshal mp b (Some T_Stat) = map_sum id PtrStat (mp_Stat mp b)"
| "msgpack_Unmarshal mp b (Some T_DirInfo) = map_sum id PtrDirInfo (mp_DirInfo mp b)"
| "msgpack_Unmarshal mp b (Some T_FileChunk) = map_sum id PtrFileChunk (mp_FileChunk mp b)"
| "msgpack_Unmarshal mp b (Some T_WriteResult) = map_sum id PtrWriteResult (mp_WriteResult mp b)"
| "msgpack_Unmarshal mp b (Some T_Error) = map_sum id PtrError (mp_Error mp b)"

subsection \<open>Marshal and Unmarshal\<close>

text \<open>\<^verbatim>\<open>binary.BigEndian.PutUint64\<close> and \<^verbatim>\<open>binary.BigEndian.Uint64\<close>.\<close>

definition PutUint64 :: "u64 \<Rightarrow> bytes" where
  "PutUint64 v =
     [ucast (drop_bit 56 v), ucast (drop_bit 48 v), ucast (drop_bit 40 v),
      ucast (drop_bit 32 v), ucast (drop_bit 24 v), ucast (drop_bit 16 v),
      ucast (drop_bit 8 v), ucast v]"

definition Uint64 :: "bytes \<Rightarrow> u64" where
  "Uint64 b =
     ucast (b ! 7) OR push_bit 8 (ucast (b ! 6)) OR push_bit 16 (ucast (b ! 5)) OR
     push_bit 24 (ucast (b ! 4)) OR push_bit 32 (ucast (b ! 3)) OR
     push_bit 40 (ucast (b ! 2)) OR push_bit 48 (ucast (b ! 1)) OR
     push_bit 56 (ucast (b ! 0))"

text \<open>
  \<^verbatim>\<open>Marshal\<close>: the 11 byte header, then the encoded payload; the encoder's error is
  returned.
\<close>

definition Marshal :: "msgpack \<Rightarrow> Packet \<Rightarrow> error + bytes" where
  "Marshal mp pkt =
     (let header = PutUint64 (PacketId pkt) @ [Op pkt, ConnId pkt, Flags pkt]
      in case mp_Marshal mp (Data pkt) of
           Inl err \<Rightarrow> Inl err
         | Inr data \<Rightarrow> Inr (header @ data))"

text \<open>
  The switch of \<^verbatim>\<open>Unmarshal\<close>, case by case in the order of the source; with no
  matching case \<^verbatim>\<open>struc\<close> keeps its zero value, the nil interface.
\<close>

definition payload_target :: "opcodes \<Rightarrow> u8 \<Rightarrow> gotype option" where
  "payload_target oc op =
     (if op = AttrRequest oc then Some T_RemotePath
      else if op = ReadDirRequest oc then Some T_ReadDirInfo
      else if op = ReadDirAllRequest oc then Some T_RemotePath
      else if op = FetchFileRequest oc then Some T_RemotePath
      else if op = ReadFileRequest oc then Some T_ReadInfo
      else if op = WriteFileRequest oc then Some T_WriteInfo
      else if op = SetAttrRequest oc then Some T_AttrInfo
      else if op = CreateRequest oc then Some T_CreateInfo
      else if op = RemoveRequest oc then Some T_RemotePath
      else if op = RenameRequest oc then Some T_RenameInfo
      else if op = OpenRequest oc then Some T_OpenInfo
      else if op = CloseRequest oc then Some T_CloseInfo
      else if op = StatResponse oc then Some T_Stat
      else if op = StatsResponse oc then Some T_DirInfo
      else if op = FileDataResponse oc then Some T_FileChunk
      else if op = WriteResponse oc then Some T_WriteResult
      else if op = ErrorResponse oc then Some T_Error
      else None)"

text \<open>The op codes that the switch lists.\<close>

definition switch_ops :: "opcodes \<Rightarrow> u8 list" where
  "switch_ops oc =
     [AttrRequest oc, ReadDirRequest oc, ReadDirAllRequest oc, FetchFileRequest oc,
      ReadFileRequest oc, WriteFileRequest oc, SetAttrRequest oc, CreateRequest oc,
      RemoveRequest oc, RenameRequest oc, OpenRequest oc, CloseRequest oc,
      StatResponse oc, StatsResponse oc, FileDataResponse oc, WriteResponse oc,
      ErrorResponse oc]"

text \<open>
  \<^verbatim>\<open>Unmarshal\<close> has no result in the source: it fills the packet in place. Reading
  the header of a frame shorter than 11 bytes panics (index out of range); a decoder
  error ends in \<^verbatim>\<open>zap.L().Fatal\<close>.
\<close>

definition Unmarshal :: "opcodes \<Rightarrow> msgpack \<Rightarrow> bytes \<Rightarrow> Packet result" where
  "Unmarshal oc mp data =
     (if length data < 11 then Panic IndexOutOfRange
      else
        let payload = drop 11 data;
            struc = payload_target oc (data ! 8)
        in case msgpack_Unmarshal mp payload struc of
             Inl err \<Rightarrow> Fatal
           | Inr filled \<Rightarrow>
               Ok \<lparr>ConnId = data ! 9, Flags = data ! 10, PacketId = Uint64 data,
                   Op = data ! 8, Data = filled\<rparr>)"

definition IsRequest :: "Packet \<Rightarrow> bool" where
  "IsRequest pkt = (if Flags pkt = 0 then True else False)"

section \<open>The talker\<close>

subsection \<open>Keys of the pending table\<close>

text \<open>\<^verbatim>\<open>strconv.FormatInt(n, 10)\<close>: decimal digits, with a minus sign below zero.\<close>

definition digit :: "nat \<Rightarrow> char" where
  "digit d = char_of (48 + d)"

function decimal :: "nat \<Rightarrow> string" where
  "decimal n = (if n < 10 then [digit n] else decimal (n div 10) @ [digit (n mod 10)])"
  by pat_completeness auto
termination
  by (relation "measure id") auto

definition FormatInt :: "int \<Rightarrow> string" where
  "FormatInt i = (if i < 0 then CHR ''-'' # decimal (nat (- i)) else decimal (nat i))"

text \<open>
  \<^verbatim>\<open>GetMapKey\<close> joins the hostname and the two numbers with an underscore.
  \<^verbatim>\<open>int64(connId)\<close> of a \<^verbatim>\<open>uint8\<close> is its unsigned value; \<^verbatim>\<open>int64(id)\<close> of a
  \<^verbatim>\<open>uint64\<close> reads the same 64 bits as two's complement.
\<close>

definition GetMapKey :: "string \<Rightarrow> u8 \<Rightarrow> u64 \<Rightarrow> string" where
  "GetMapKey hostname connId ident =
     hostname @ ''_'' @ FormatInt (uint connId) @ ''_'' @ FormatInt (sint ident)"

subsection \<open>State\<close>

text \<open>
  A \<^verbatim>\<open>chan *Packet\<close> made by \<^verbatim>\<open>sendRequest\<close> is unbuffered and has one receiver, the
  caller blocked in \<^verbatim>\<open>sendRequest\<close>. The model keeps, for each channel, the packets
  handed over to the receiver and whether the channel is closed. Channels live in a
  store; a channel value is its index there.
\<close>

record chan =
  received :: "Packet list"
  closed :: bool

record PacketChannelTuple =
  Packet :: Packet
  Channel :: nat

datatype wsmsg = BinaryMessage bytes | PingMessage bytes

text \<open>
  Modelled from the spec: \<^verbatim>\<open>FsConnectionPool\<close>, declared outside the files at hand.
  It holds the live connections of one remote and, for each connection, an egress queue
  of (packet, response-channel) tuples; \<^verbatim>\<open>Append\<close> adds a connection with its queue.
  A connection is modelled by the messages written on it so far.
\<close>

record FsConnectionPool =
  Connections :: "wsmsg list list"
  SendingChannels :: "PacketChannelTuple list list"

definition newFsConnectionPool :: FsConnectionPool where
  "newFsConnectionPool = \<lparr>Connections = [], SendingChannels = []\<rparr>"

definition Append :: "FsConnectionPool \<Rightarrow> FsConnectionPool" where
  "Append pool =
     pool\<lparr>Connections := Connections pool @ [[]],
          SendingChannels := SendingChannels pool @ [[]]\<rparr>"

text \<open>
  The three concurrent maps of \<^verbatim>\<open>talker\<close>, and the store of the channels that
  \<^verbatim>\<open>sendRequest\<close> has made.
\<close>

record talker =
  IdCounters :: "string \<rightharpoonup> u64"
  Pools :: "string \<rightharpoonup> FsConnectionPool"
  RequestBuffer :: "string \<rightharpoonup> PacketChannelTuple"
  Chans :: "chan list"

subsection \<open>Startup\<close>

text \<open>
  \<^verbatim>\<open>Startup\<close> where every handshake succeeds (a failed one is fatal): each remote gets
  a counter at 0 and a new pool with \<^verbatim>\<open>poolCount\<close> connections.
\<close>

definition mountRemoteRoot :: "talker \<Rightarrow> string \<Rightarrow> nat \<Rightarrow> talker" where
  "mountRemoteRoot t hostname poolCount =
     (case Pools t hostname of
        None \<Rightarrow> t
      | Some pool \<Rightarrow> t\<lparr>Pools := (Pools t)(hostname \<mapsto> (Append ^^ poolCount) pool)\<rparr>)"

definition Startup_root :: "nat \<Rightarrow> string \<Rightarrow> talker \<Rightarrow> talker" where
  "Startup_root poolCount hostname t =
     mountRemoteRoot
       (t\<lparr>IdCounters := (IdCounters t)(hostname \<mapsto> 0),
          Pools := (Pools t)(hostname \<mapsto> newFsConnectionPool)\<rparr>)
       hostname poolCount"

definition Talker :: talker where
  "Talker = \<lparr>IdCounters = Map.empty, Pools = Map.empty, RequestBuffer = Map.empty, Chans = []\<rparr>"

definition Startup :: "string list \<Rightarrow> nat \<Rightarrow> talker" where
  "Startup hostnames poolCount = fold (Startup_root poolCount) hostnames Talker"

subsection \<open>Request submission\<close>

text \<open>
  \<^verbatim>\<open>sendRequest\<close> up to the point where it blocks: it makes the response channel,
  builds the packet and puts the tuple on the queue with index \<^verbatim>\<open>rnd\<close>, the value of
  \<^verbatim>\<open>GetRandomIndex\<close>. It returns the new channel with the state. A queue that is
  full only delays the caller, which the model leaves out.
\<close>

definition sendRequest_submit ::
  "talker \<Rightarrow> u8 \<Rightarrow> string \<Rightarrow> Payload \<Rightarrow> nat \<Rightarrow> (nat \<times> talker) result" where
  "sendRequest_submit t opCode hostname payload rnd =
     (let respChannel = length (Chans t);
          t1 = t\<lparr>Chans := Chans t @ [\<lparr>received = [], closed = False\<rparr>]\<rparr>;
          req = \<lparr>ConnId = 0, Flags = 0, PacketId = 0, Op = opCode, Data = payload\<rparr>
      in case Pools t1 hostname of
           None \<Rightarrow> Panic NilInterfaceConversion
         | Some pool \<Rightarrow>
             if rnd < length (SendingChannels pool) then
               Ok (respChannel,
                   t1\<lparr>Pools := (Pools t1)(hostname \<mapsto>
                     pool\<lparr>SendingChannels := (SendingChannels pool)
                       [rnd := SendingChannels pool ! rnd @
                          [\<lparr>Packet = req, Channel = respChannel\<rparr>]]\<rparr>)\<rparr>)
             else Panic IndexOutOfRange)"


subsection \<open>The egress worker\<close>

text \<open>
  One turn of the loop of \<^verbatim>\<open>processSendingChannel\<close>. With an empty queue the worker
  waits and the state stays. \<^verbatim>\<open>atomic.AddUint64\<close> returns the new value of the counter.
  The error of \<^verbatim>\<open>Marshal\<close> is dropped by the source, which then writes the nil slice.
  \<^verbatim>\<open>write_ok\<close> tells whether \<^verbatim>\<open>WriteMessage\<close> succeeds; its failure is fatal.
\<close>

definition processSendingChannel_step ::
  "msgpack \<Rightarrow> talker \<Rightarrow> string \<Rightarrow> u8 \<Rightarrow> bool \<Rightarrow> talker result" where
  "processSendingChannel_step mp t hostname index write_ok =
     (case Pools t hostname of
        None \<Rightarrow> Panic NilInterfaceConversion
      | Some pool \<Rightarrow>
          if \<not> unat index < length (SendingChannels pool) then Panic IndexOutOfRange
          else case SendingChannels pool ! unat index of
            [] \<Rightarrow> Ok t
          | req # rest \<Rightarrow>
              (case IdCounters t hostname of
                 None \<Rightarrow> Panic NilInterfaceConversion
               | Some counter \<Rightarrow>
                   let pkt = (Packet req)\<lparr>ConnId := index, PacketId := counter + 1\<rparr>;
                       stamped = req\<lparr>Packet := pkt\<rparr>;
                       key = GetMapKey hostname (ConnId pkt) (PacketId pkt);
                       data = (case Marshal mp pkt of Inl err \<Rightarrow> [] | Inr d \<Rightarrow> d)
                   in if \<not> unat index < length (Connections pool) then Panic IndexOutOfRange
                      else if \<not> write_ok then Fatal
                      else Ok (t\<lparr>IdCounters := (IdCounters t)(hostname \<mapsto> counter + 1),
                                 RequestBuffer := (RequestBuffer t)(key \<mapsto> stamped),
                                 Pools := (Pools t)(hostname \<mapsto>
                                   pool\<lparr>SendingChannels :=
                                          (SendingChannels pool)[unat index := rest],
                                        Connections := (Connections pool)
                                          [unat index := Connections pool ! unat index @
                                             [BinaryMessage data]]\<rparr>)\<rparr>)))"

subsection \<open>The ingress worker\<close>

text \<open>Sending on and closing a channel; both panic on a closed channel.\<close>

definition chan_send :: "chan list \<Rightarrow> nat \<Rightarrow> Packet \<Rightarrow> chan list result" where
  "chan_send cs ch p =
     (if ch < length cs \<and> closed (cs ! ch) then Panic SendOnClosedChannel
      else Ok (cs[ch := (cs ! ch)\<lparr>received := received (cs ! ch) @ [p]\<rparr>]))"

definition chan_close :: "chan list \<Rightarrow> nat \<Rightarrow> chan list result" where
  "chan_close cs ch =
     (if ch < length cs \<and> closed (cs ! ch) then Panic CloseOfClosedChannel
      else Ok (cs[ch := (cs ! ch)\<lparr>closed := True\<rparr>]))"

text \<open>
  One turn of the loop of \<^verbatim>\<open>processIncomingMessages\<close>. \<^verbatim>\<open>frame\<close> is what
  \<^verbatim>\<open>ReadMessage\<close> returns: \<^verbatim>\<open>None\<close> for an error, which is fatal. The lookup result
  is converted with \<^verbatim>\<open>req.(*PacketChannelTuple)\<close> without a presence check, so a
  missing key panics. A request frame goes to \<^verbatim>\<open>processRequest\<close>, which does nothing.
\<close>

definition processIncomingMessages_step ::
  "opcodes \<Rightarrow> msgpack \<Rightarrow> talker \<Rightarrow> string \<Rightarrow> u8 \<Rightarrow> bytes option \<Rightarrow> talker result" where
  "processIncomingMessages_step oc mp t hostname index frame =
     (case Pools t hostname of
        None \<Rightarrow> Panic NilInterfaceConversion
      | Some pool \<Rightarrow>
          if \<not> unat index < length (Connections pool) then Panic IndexOutOfRange
          else case frame of
            None \<Rightarrow> Fatal
          | Some data \<Rightarrow>
              (case Unmarshal oc mp data of
                 Panic p \<Rightarrow> Panic p
               | Fatal \<Rightarrow> Fatal
               | Failed err \<Rightarrow> Failed err
               | Ok packet \<Rightarrow>
                   if \<not> IsRequest packet then
                     (let key = GetMapKey hostname (ConnId packet) (PacketId packet)
                      in case RequestBuffer t key of
                           None \<Rightarrow> Panic NilInterfaceConversion
                         | Some req \<Rightarrow>
                             (case chan_send (Chans t) (Channel req) packet of
                                Panic p \<Rightarrow> Panic p
                              | Fatal \<Rightarrow> Fatal
                              | Failed err \<Rightarrow> Failed err
                              | Ok cs1 \<Rightarrow>
                                  (case chan_close cs1 (Channel req) of
                                     Panic p \<Rightarrow> Panic p
                                   | Fatal \<Rightarrow> Fatal
                                   | Failed err \<Rightarrow> Failed err
                                   | Ok cs2 \<Rightarrow>
                                       Ok (t\<lparr>Chans := cs2,
                                             RequestBuffer := (RequestBuffer t)(key := None)\<rparr>))))
                   else Ok t))"

subsection \<open>Executions\<close>

text \<open>
  The workers and the callers of \<^verbatim>\<open>sendRequest\<close> run concurrently; an execution is an
  interleaving of their turns. Each turn carries what the environment decides: the random
  queue index, whether the write succeeds, the frame read.
\<close>

datatype action =
    Submit u8 string Payload nat
  | Egress string u8 bool
  | Ingress string u8 "bytes option"

fun step :: "opcodes \<Rightarrow> msgpack \<Rightarrow> talker \<Rightarrow> action \<Rightarrow> talker result" where
  "step oc mp t (Submit opCode hostname payload rnd) =
     (case sendRequest_submit t opCode hostname payload rnd of
        Ok (ch, t') \<Rightarrow> Ok t'
      | Failed err \<Rightarrow> Failed err
      | Fatal \<Rightarrow> Fatal
      | Panic p \<Rightarrow> Panic p)"
| "step oc mp t (Egress hostname index write_ok) =
     processSendingChannel_step mp t hostname index write_ok"
| "step oc mp t (Ingress hostname index frame) =
     processIncomingMessages_step oc mp t hostname index frame"

fun run :: "opcodes \<Rightarrow> msgpack \<Rightarrow> talker \<Rightarrow> action list \<Rightarrow> talker result" where
  "run oc mp t [] = Ok t"
| "run oc mp t (a # as) =
     (case step oc mp t a of
        Ok t' \<Rightarrow> run oc mp t' as
      | Failed err \<Rightarrow> Failed err
      | Fatal \<Rightarrow> Fatal
      | Panic p \<Rightarrow> Panic p)"

subsection \<open>Invariants of executions\<close>

text \<open>
  A channel is fresh when nothing was handed over on it and it is open. The channels
  that wait in the queue of connection \<^verbatim>\<open>i\<close> of a remote, and the channel pending
  under a key of the table, are read off the state. The routing invariant says that no
  channel waits in two places, that every waiting channel is fresh, and that every
  channel of the store is either fresh or closed after exactly one delivery.
\<close>

definition fresh :: "chan \<Rightarrow> bool" where
  "fresh c = (received c = [] \<and> \<not> closed c)"


definition queue_of :: "talker \<Rightarrow> string \<Rightarrow> nat \<Rightarrow> PacketChannelTuple list" where
  "queue_of t h i =
     (case Pools t h of
        None \<Rightarrow> []
      | Some pool \<Rightarrow> if i < length (SendingChannels pool) then SendingChannels pool ! i else [])"

definition qchans :: "talker \<Rightarrow> string \<Rightarrow> nat \<Rightarrow> nat list" where
  "qchans t h i = map Channel (queue_of t h i)"



text \<open>What holds right after \<^verbatim>\<open>Startup\<close>: nothing pending, no channel, empty queues.\<close>

definition startup_like :: "talker \<Rightarrow> bool" where
  "startup_like t =
     (RequestBuffer t = Map.empty \<and> Chans t = [] \<and>
      (\<forall>h pool. Pools t h = Some pool \<longrightarrow> (\<forall>q \<in> set (SendingChannels pool). q = [])) \<and>
      (\<forall>h cnt. IdCounters t h = Some cnt \<longrightarrow> cnt = 0))"


subsection \<open>The ids that an execution stamps\<close>

text \<open>
  The pair of hostname and id that a turn stamps: an egress turn that takes a tuple off
  its queue stamps the new value of the counter of its remote; no other turn stamps.
  \<^verbatim>\<open>stamps\<close> lists what the turns of an execution stamp, in order, and \<^verbatim>\<open>ids_of\<close>
  keeps the ids of one remote. The id invariant of a remote: its counter is the number of
  ids stamped so far, these ids are distinct and lie between 1 and that number, and every
  id pending for the remote is one of them.
\<close>

fun stamped_id :: "talker \<Rightarrow> action \<Rightarrow> (string \<times> u64) option" where
  "stamped_id t (Egress hostname index write_ok) =
     (case queue_of t hostname (unat index) of
        [] \<Rightarrow> None
      | req # rest \<Rightarrow> map_option (\<lambda>counter. (hostname, counter + 1)) (IdCounters t hostname))"
| "stamped_id t (Submit opCode hostname payload rnd) = None"
| "stamped_id t (Ingress hostname index frame) = None"

fun stamps :: "opcodes \<Rightarrow> msgpack \<Rightarrow> talker \<Rightarrow> action list \<Rightarrow> (string \<times> u64) list" where
  "stamps oc mp t [] = []"
| "stamps oc mp t (a # as) =
     (case step oc mp t a of
        Ok t' \<Rightarrow> (case stamped_id t a of None \<Rightarrow> [] | Some x \<Rightarrow> [x]) @ stamps oc mp t' as
      | Failed err \<Rightarrow> []
      | Fatal \<Rightarrow> []
      | Panic p \<Rightarrow> [])"

definition ids_of :: "string \<Rightarrow> (string \<times> u64) list \<Rightarrow> u64 list" where
  "ids_of hostname xs = map snd (filter (\<lambda>x. fst x = hostname) xs)"

definition id_inv :: "talker \<Rightarrow> string \<Rightarrow> u64 list \<Rightarrow> bool" where
  "id_inv t h ids =
     ((\<forall>cnt. IdCounters t h = Some cnt \<longrightarrow> unat cnt = length ids) \<and>
      distinct ids \<and>
      (\<forall>i \<in> set ids. 0 < unat i \<and> unat i \<le> length ids) \<and>
      (\<forall>c i tup. RequestBuffer t (GetMapKey h c i) = Some tup \<longrightarrow> i \<in> set ids))"

section \<open>The node layer\<close>

subsection \<open>Nodes and their store\<close>

text \<open>
  \<^verbatim>\<open>RemoteNode\<close> objects and \<^verbatim>\<open>RemotePath\<close> objects are shared through pointers and
  changed in place, so they live in two stores; a pointer is an index into its store,
  and an index outside the store stands for the nil pointer. The child map of a node
  may be the nil map. The back-reference \<^verbatim>\<open>Ifs\<close> leads to the talker and the file
  handler, which are parameters here. The world also keeps the requests that the node
  layer has sent.
\<close>

record RemoteNode =
  IsDir :: bool
  RemotePath :: nat
  RemoteNodes :: "(string \<rightharpoonup> nat) option"

record FileHandle =
  RemoteNode :: nat
  FileDescriptor :: u64

text \<open>
  An \<^verbatim>\<open>fs.Node\<close> as \<^verbatim>\<open>Rename\<close> receives it: a pointer to a \<^verbatim>\<open>RemoteNode\<close>, or a
  node of another type.
\<close>

datatype fs_Node = RemoteNodePtr nat | OtherNode

text \<open>The fields of \<^verbatim>\<open>fuse.Attr\<close> that \<^verbatim>\<open>Attr\<close> sets; the time is kept in nanoseconds.\<close>

record fuse_Attr =
  Uid :: u32
  Gid :: u32
  Size :: u64
  Mode :: u32
  Mtime :: i64

record world =
  nodes :: "RemoteNode list"
  paths :: "RemotePath list"
  sent :: "(u8 \<times> Payload) list"

text \<open>
  What package \<^verbatim>\<open>os/user\<close> answers: the numeric id of the current user and of the group
  \<^verbatim>\<open>staff\<close> as \<^verbatim>\<open>strconv.ParseUint\<close> reads them, or nothing when the lookup fails and
  returns a nil record, which \<^verbatim>\<open>Attr\<close> then dereferences.
\<close>

record userdb =
  Current_Uid :: "u64 option"
  staff_Gid :: "u64 option"

text \<open>
  The file handler is declared outside the files at hand. The node layer only calls it
  and branches on its error, so it is a parameter: for each call, the descriptor and the
  error it returns. It is taken not to touch the nodes.
\<close>

record FileHandler =
  fh_Create :: "RemotePath \<Rightarrow> string \<Rightarrow> u64 \<times> error option"
  fh_Mkdir :: "RemotePath \<Rightarrow> string \<Rightarrow> error option"
  fh_Remove :: "RemotePath \<Rightarrow> string \<Rightarrow> error option"
  fh_Rename :: "RemotePath \<Rightarrow> string \<Rightarrow> error option"

subsection \<open>Sequencing\<close>

text \<open>A call that returns a value goes on with the next statement; any other outcome ends the upcall.\<close>

definition andThen ::
  "'a result \<times> world \<Rightarrow> ('a \<Rightarrow> world \<Rightarrow> 'b result \<times> world) \<Rightarrow> 'b result \<times> world" where
  "andThen rw f =
     (case rw of
        (Ok x, w) \<Rightarrow> f x w
      | (Failed err, w) \<Rightarrow> (Failed err, w)
      | (Fatal, w) \<Rightarrow> (Fatal, w)
      | (Panic p, w) \<Rightarrow> (Panic p, w))"

subsection \<open>Pointers and child maps\<close>

text \<open>
  Dereferencing, reading \<^verbatim>\<open>rn.RemoteNodes[name]\<close> (a nil map reads as empty), writing
  an entry (a nil map panics), \<^verbatim>\<open>delete\<close> (a nil map is left alone), and
  \<^verbatim>\<open>rn.RemoteNodes = make(map[string]*RemoteNode)\<close>.
\<close>

definition node_at :: "world \<Rightarrow> nat \<Rightarrow> RemoteNode result \<times> world" where
  "node_at w r = (if r < length (nodes w) then (Ok (nodes w ! r), w) else (Panic NilDereference, w))"

definition path_at :: "world \<Rightarrow> nat \<Rightarrow> RemotePath result \<times> world" where
  "path_at w r = (if r < length (paths w) then (Ok (paths w ! r), w) else (Panic NilDereference, w))"

definition path_of :: "world \<Rightarrow> nat \<Rightarrow> RemotePath result \<times> world" where
  "path_of w rn = andThen (node_at w rn) (\<lambda>node w. path_at w (RemotePath node))"

definition lookup_child :: "RemoteNode \<Rightarrow> string \<Rightarrow> nat option" where
  "lookup_child node name = (case RemoteNodes node of None \<Rightarrow> None | Some m \<Rightarrow> m name)"

definition children :: "world \<Rightarrow> nat \<Rightarrow> string \<Rightarrow> nat option" where
  "children w rn name = (if rn < length (nodes w) then lookup_child (nodes w ! rn) name else None)"

definition set_child :: "world \<Rightarrow> nat \<Rightarrow> string \<Rightarrow> nat \<Rightarrow> unit result \<times> world" where
  "set_child w rn name child =
     andThen (node_at w rn) (\<lambda>node w.
       case RemoteNodes node of
         None \<Rightarrow> (Panic NilMapAssignment, w)
       | Some m \<Rightarrow> (Ok (), w\<lparr>nodes := (nodes w)[rn := node\<lparr>RemoteNodes := Some (m(name \<mapsto> child))\<rparr>]\<rparr>))"

definition delete_child :: "world \<Rightarrow> nat \<Rightarrow> string \<Rightarrow> unit result \<times> world" where
  "delete_child w rn name =
     andThen (node_at w rn) (\<lambda>node w.
       case RemoteNodes node of
         None \<Rightarrow> (Ok (), w)
       | Some m \<Rightarrow> (Ok (), w\<lparr>nodes := (nodes w)[rn := node\<lparr>RemoteNodes := Some (m(name := None))\<rparr>]\<rparr>))"

definition make_children :: "world \<Rightarrow> nat \<Rightarrow> unit result \<times> world" where
  "make_children w rn =
     andThen (node_at w rn) (\<lambda>node w.
       (Ok (), w\<lparr>nodes := (nodes w)[rn := node\<lparr>RemoteNodes := Some Map.empty\<rparr>]\<rparr>))"

subsection \<open>Type assertions on the response\<close>

text \<open>
  \<^verbatim>\<open>resp.Data.(Error)\<close> in the two-result form holds exactly when the dynamic type is
  the struct type \<^verbatim>\<open>Error\<close>. \<^verbatim>\<open>resp.Data.(*Stat)\<close> and \<^verbatim>\<open>resp.Data.(*DirInfo)\<close> in
  the one-result form panic on any other dynamic type.
\<close>

fun assert_Error :: "Payload \<Rightarrow> Error option" where
  "assert_Error (ValError e) = Some e"
| "assert_Error other = None"

fun assert_PtrStat :: "Payload \<Rightarrow> Stat result" where
  "assert_PtrStat (PtrStat s) = Ok s"
| "assert_PtrStat NilPayload = Panic NilInterfaceConversion"
| "assert_PtrStat other = Panic WrongTypeConversion"

fun assert_PtrDirInfo :: "Payload \<Rightarrow> DirInfo result" where
  "assert_PtrDirInfo (PtrDirInfo d) = Ok d"
| "assert_PtrDirInfo NilPayload = Panic NilInterfaceConversion"
| "assert_PtrDirInfo other = Panic WrongTypeConversion"

subsection \<open>Upcalls\<close>

text \<open>
  The node layer calls \<^verbatim>\<open>rn.Ifs.Talker.sendRequest(op, payload)\<close> and gets the response
  packet back. \<^verbatim>\<open>agent\<close> is the packet that arrives for a request; the request is
  added to the requests sent. The payload \<^verbatim>\<open>rn.RemotePath\<close> is a pointer; the record it
  points to at the time of the call is what is sent.
\<close>

definition sendRequest ::
  "(u8 \<Rightarrow> Payload \<Rightarrow> Packet) \<Rightarrow> world \<Rightarrow> u8 \<Rightarrow> Payload \<Rightarrow> Packet result \<times> world" where
  "sendRequest agent w opCode payload =
     (Ok (agent opCode payload), w\<lparr>sent := sent w @ [(opCode, payload)]\<rparr>)"

definition user_ids :: "userdb \<Rightarrow> world \<Rightarrow> (u64 \<times> u64) result \<times> world" where
  "user_ids db w =
     (case Current_Uid db of
        None \<Rightarrow> (Panic NilDereference, w)
      | Some uid \<Rightarrow>
          (case staff_Gid db of
             None \<Rightarrow> (Panic NilDereference, w)
           | Some gid \<Rightarrow> (Ok (uid, gid), w)))"

text \<open>
  \<^verbatim>\<open>Attr\<close> returns the filled attributes; with any other outcome the attributes of the
  caller stay as they were.
\<close>

definition Attr ::
  "opcodes \<Rightarrow> (u8 \<Rightarrow> Payload \<Rightarrow> Packet) \<Rightarrow> userdb \<Rightarrow> world \<Rightarrow> nat \<Rightarrow> fuse_Attr
     \<Rightarrow> fuse_Attr result \<times> world" where
  "Attr oc agent db w rn attr =
     andThen (path_of w rn) (\<lambda>rp w.
     andThen (sendRequest agent w (AttrRequest oc) (PtrRemotePath rp)) (\<lambda>resp w.
       case assert_Error (Data resp) of
         None \<Rightarrow>
           andThen (assert_PtrStat (Data resp), w) (\<lambda>s w.
           andThen (user_ids db w) (\<lambda>(uid, gid) w.
             (Ok (attr\<lparr>Uid := ucast uid, Gid := ucast gid, Size := Stat.Size s,
                       Mode := Stat.Mode s, Mtime := ModTime s\<rparr>), w)))
       | Some respErr \<Rightarrow> (Failed (Err respErr), w)))"

text \<open>
  \<^verbatim>\<open>path.Join\<close> belongs to the standard library and is a parameter.
  \<^verbatim>\<open>generateChildRemoteNode\<close> allocates a new path and a new node with an empty child map.
\<close>

definition generateChildRemoteNode ::
  "(string \<Rightarrow> string \<Rightarrow> string) \<Rightarrow> world \<Rightarrow> nat \<Rightarrow> string \<Rightarrow> bool \<Rightarrow> nat result \<times> world" where
  "generateChildRemoteNode path_Join w rn name isDir =
     andThen (path_of w rn) (\<lambda>rp w.
       (Ok (length (nodes w)),
        w\<lparr>paths := paths w @
             [\<lparr>Hostname = Hostname rp, Port = Port rp, Path = path_Join (Path rp) name\<rparr>],
          nodes := nodes w @
             [\<lparr>IsDir = isDir, RemotePath = length (paths w), RemoteNodes = Some Map.empty\<rparr>]\<rparr>))"

text \<open>The loop of \<^verbatim>\<open>Lookup\<close> over the stats of the response.\<close>

fun populate ::
  "(string \<Rightarrow> string \<Rightarrow> string) \<Rightarrow> world \<Rightarrow> nat \<Rightarrow> Stat list \<Rightarrow> unit result \<times> world" where
  "populate path_Join w rn [] = (Ok (), w)"
| "populate path_Join w rn (s # files) =
     andThen (generateChildRemoteNode path_Join w rn (Name s) (Stat.IsDir s)) (\<lambda>child w.
     andThen (set_child w rn (Name s) child) (\<lambda>u w.
       populate path_Join w rn files))"

definition Lookup ::
  "opcodes \<Rightarrow> (u8 \<Rightarrow> Payload \<Rightarrow> Packet) \<Rightarrow> (string \<Rightarrow> string \<Rightarrow> string) \<Rightarrow> world \<Rightarrow> nat
     \<Rightarrow> string \<Rightarrow> nat result \<times> world" where
  "Lookup oc agent path_Join w rn name =
     andThen (path_of w rn) (\<lambda>rp w.
       case children w rn name of
         Some val \<Rightarrow> (Ok val, w)
       | None \<Rightarrow>
           andThen (sendRequest agent w (ReadDirAllRequest oc) (PtrRemotePath rp)) (\<lambda>resp w.
           andThen (make_children w rn) (\<lambda>u w.
           andThen
             (case assert_Error (Data resp) of
                None \<Rightarrow>
                  andThen (assert_PtrDirInfo (Data resp), w) (\<lambda>d w.
                    populate path_Join w rn (Stats d))
              | Some respError \<Rightarrow> (Ok (), w))
             (\<lambda>u w.
                case children w rn name of
                  Some val \<Rightarrow> (Ok val, w)
                | None \<Rightarrow> (Failed ENOENT, w)))))"

definition Create ::
  "FileHandler \<Rightarrow> (string \<Rightarrow> string \<Rightarrow> string) \<Rightarrow> world \<Rightarrow> nat \<Rightarrow> string
     \<Rightarrow> (nat \<times> FileHandle) result \<times> world" where
  "Create fh path_Join w rn name =
     andThen (path_of w rn) (\<lambda>rp w.
       case fh_Create fh rp name of
         (fd, None) \<Rightarrow>
           andThen (generateChildRemoteNode path_Join w rn name False) (\<lambda>newRn w.
           andThen (set_child w rn name newRn) (\<lambda>u w.
             (Ok (newRn, \<lparr>RemoteNode = newRn, FileDescriptor = fd\<rparr>), w)))
       | (fd, Some err) \<Rightarrow> (Failed err, w))"

definition Mkdir ::
  "FileHandler \<Rightarrow> (string \<Rightarrow> string \<Rightarrow> string) \<Rightarrow> world \<Rightarrow> nat \<Rightarrow> string
     \<Rightarrow> nat result \<times> world" where
  "Mkdir fh path_Join w rn name =
     andThen (path_of w rn) (\<lambda>rp w.
       case fh_Mkdir fh rp name of
         None \<Rightarrow>
           andThen (generateChildRemoteNode path_Join w rn name True) (\<lambda>newRn w.
           andThen (set_child w rn name newRn) (\<lambda>u w.
             (Ok newRn, w)))
       | Some err \<Rightarrow> (Failed err, w))"

definition Remove :: "FileHandler \<Rightarrow> world \<Rightarrow> nat \<Rightarrow> string \<Rightarrow> unit result \<times> world" where
  "Remove fh w rn name =
     andThen (path_of w rn) (\<lambda>rp w.
       case fh_Remove fh rp name of
         None \<Rightarrow> delete_child w rn name
       | Some err \<Rightarrow> (Failed err, w))"

definition Rename ::
  "FileHandler \<Rightarrow> (string \<Rightarrow> string \<Rightarrow> string) \<Rightarrow> world \<Rightarrow> nat \<Rightarrow> string \<Rightarrow> string
     \<Rightarrow> fs_Node \<Rightarrow> unit result \<times> world" where
  "Rename fh path_Join w rn oldName newName newDir =
     andThen (path_of w rn) (\<lambda>rp w.
       case newDir of
         OtherNode \<Rightarrow> (Panic WrongTypeConversion, w)
       | RemoteNodePtr rnDestDir \<Rightarrow>
           andThen (path_of w rnDestDir) (\<lambda>destDirPath w.
             case children w rn oldName of
               None \<Rightarrow> (Panic NilDereference, w)
             | Some curRn \<Rightarrow>
                 andThen (node_at w curRn) (\<lambda>curNode w.
                 andThen (path_at w (RemotePath curNode)) (\<lambda>curPath w.
                   let destPath = path_Join (Path destDirPath) newName
                   in case fh_Rename fh curPath destPath of
                        None \<Rightarrow>
                          andThen
                            (Ok (), w\<lparr>paths := (paths w)
                               [RemotePath curNode := curPath\<lparr>Path := destPath\<rparr>]\<rparr>) (\<lambda>u w.
                          andThen (delete_child w rn oldName) (\<lambda>u w.
                            set_child w rnDestDir newName curRn))
                      | Some err \<Rightarrow> (Failed err, w)))))"

subsection \<open>What the loop of Lookup builds\<close>

text \<open>
  Closed forms, to state what \<^verbatim>\<open>Lookup\<close> leaves behind after a miss: the child map
  that maps the name of each stat to a new node (a later stat of the same name wins),
  the new nodes and the new paths in the order of the stats, and the world after the
  loop. \<^verbatim>\<open>after_request\<close> is the world when the loop starts: the request is sent and
  the child map is a new empty map.
\<close>

fun stats_child_map :: "nat \<Rightarrow> Stat list \<Rightarrow> (string \<rightharpoonup> nat) \<Rightarrow> (string \<rightharpoonup> nat)" where
  "stats_child_map base [] m = m"
| "stats_child_map base (s # files) m = stats_child_map (Suc base) files (m(Name s \<mapsto> base))"

fun stats_nodes :: "nat \<Rightarrow> Stat list \<Rightarrow> RemoteNode list" where
  "stats_nodes pbase [] = []"
| "stats_nodes pbase (s # files) =
     \<lparr>IsDir = Stat.IsDir s, RemotePath = pbase, RemoteNodes = Some Map.empty\<rparr> #
     stats_nodes (Suc pbase) files"

definition stats_paths :: "(string \<Rightarrow> string \<Rightarrow> string) \<Rightarrow> RemotePath \<Rightarrow> Stat list \<Rightarrow> RemotePath list" where
  "stats_paths path_Join rp files =
     map (\<lambda>s. \<lparr>Hostname = Hostname rp, Port = Port rp, Path = path_Join (Path rp) (Name s)\<rparr>) files"

definition repopulated ::
  "(string \<Rightarrow> string \<Rightarrow> string) \<Rightarrow> world \<Rightarrow> nat \<Rightarrow> Stat list \<Rightarrow> (string \<rightharpoonup> nat) \<Rightarrow> world" where
  "repopulated path_Join w rn files m =
     w\<lparr>paths := paths w @ stats_paths path_Join (paths w ! RemotePath (nodes w ! rn)) files,
       nodes := (nodes w)[rn := (nodes w ! rn)
                  \<lparr>RemoteNodes := Some (stats_child_map (length (nodes w)) files m)\<rparr>] @
                stats_nodes (length (paths w)) files\<rparr>"

definition after_request :: "world \<Rightarrow> nat \<Rightarrow> u8 \<times> Payload \<Rightarrow> world" where
  "after_request w rn req =
     w\<lparr>sent := sent w @ [req],
       nodes := (nodes w)[rn := (nodes w ! rn)\<lparr>RemoteNodes := Some Map.empty\<rparr>]\<rparr>"

section \<open>Keepalive\<close>

subsection \<open>The timer\<close>

text \<open>
  A \<^verbatim>\<open>time.Duration\<close> counts nanoseconds, and \<^verbatim>\<open>time.Second\<close> is 1000000000 of them.
  \<^verbatim>\<open>time.Tick(d)\<close> returns a channel on which a tick arrives every \<^verbatim>\<open>d\<close>; for a
  \<^verbatim>\<open>d\<close> that is not positive it returns the nil channel, on which nothing ever arrives.
  \<^verbatim>\<open>time_Tick d now\<close> is what has arrived on the channel when the clock reads \<^verbatim>\<open>now\<close>
  nanoseconds after the call: the times of the ticks so far, for a receiver that keeps
  up with the timer, so that no tick is dropped.
\<close>

definition time_Second :: int where
  "time_Second = 1000000000"

definition time_Tick :: "int \<Rightarrow> int \<Rightarrow> int list" where
  "time_Tick d now = (if d \<le> 0 then [] else map (\<lambda>k. (int k + 1) * d) [0 ..< nat (now div d)])"

subsection \<open>The keepalive worker\<close>

text \<open>
  \<^verbatim>\<open>setupPing\<close> runs one round for each tick that it receives from the channel \<^verbatim>\<open>ch\<close>.
  A round goes through the pools and through the connections of each pool by index, and
  writes a ping message with the text \<^verbatim>\<open>ping\<close> on each. What the environment decides in
  the round of a tick is \<^verbatim>\<open>env tick\<close>: the keys of the pools in the order in which
  \<^verbatim>\<open>IterBuffered\<close> yields them, and for which connections \<^verbatim>\<open>WriteMessage\<close> succeeds; a
  message that was written is added to the connection. The log keeps the message, the
  hostname and the index of the \<^verbatim>\<open>Debug\<close> and \<^verbatim>\<open>Warn\<close> entries. The loop has no statement
  that stops the process.
\<close>

datatype log = Debug string string nat | Warn string string nat

definition ping :: bytes where
  "ping = [112, 105, 110, 103]"

fun ping_connections ::
  "(nat \<Rightarrow> bool) \<Rightarrow> string \<Rightarrow> nat \<Rightarrow> wsmsg list list \<Rightarrow> wsmsg list list \<times> log list" where
  "ping_connections write_ok hostname index [] = ([], [])"
| "ping_connections write_ok hostname index (conn # conns) =
     (let (conns', logs) = ping_connections write_ok hostname (Suc index) conns
      in if write_ok index
         then ((conn @ [PingMessage ping]) # conns', Debug ''Ping Sent'' hostname index # logs)
         else (conn # conns',
               Debug ''Ping Sent'' hostname index # Warn ''Ping Failed'' hostname index # logs))"

fun ping_pools ::
  "(string \<Rightarrow> nat \<Rightarrow> bool) \<Rightarrow> talker \<Rightarrow> string list \<Rightarrow> talker \<times> log list" where
  "ping_pools write_ok t [] = (t, [])"
| "ping_pools write_ok t (hostname # hostnames) =
     (case Pools t hostname of
        None \<Rightarrow> ping_pools write_ok t hostnames
      | Some pool \<Rightarrow>
          (let (conns', logs) = ping_connections (write_ok hostname) hostname 0 (Connections pool);
               t1 = t\<lparr>Pools := (Pools t)(hostname \<mapsto> pool\<lparr>Connections := conns'\<rparr>)\<rparr>;
               (t2, logs2) = ping_pools write_ok t1 hostnames
           in (t2, logs @ logs2)))"

fun setupPing ::
  "(int \<Rightarrow> string list \<times> (string \<Rightarrow> nat \<Rightarrow> bool)) \<Rightarrow> talker \<Rightarrow> int list
     \<Rightarrow> (talker \<times> log list) result" where
  "setupPing env t [] = Ok (t, [])"
| "setupPing env t (tick # ch) =
     (let (hostnames, write_ok) = env tick;
          (t1, logs) = ping_pools write_ok t hostnames
      in case setupPing env t1 ch of
           Ok (t2, logs2) \<Rightarrow> Ok (t2, logs @ logs2)
         | Failed err \<Rightarrow> Failed err
         | Fatal \<Rightarrow> Fatal
         | Panic p \<Rightarrow> Panic p)"

text \<open>
  The last statement of \<^verbatim>\<open>Startup\<close>, \<^verbatim>\<open>go t.setupPing(time.Tick(30 * time.Second))\<close>:
  the one keepalive worker of the talker on its one timer, observed until the clock reads
  \<^verbatim>\<open>now\<close>.
\<close>

definition Startup_setupPing ::
  "(int \<Rightarrow> string list \<times> (string \<Rightarrow> nat \<Rightarrow> bool)) \<Rightarrow> talker \<Rightarrow> int
     \<Rightarrow> (talker \<times> log list) result" where
  "Startup_setupPing env t now = setupPing env t (time_Tick (30 * time_Second) now)"

section \<open>Example inputs\<close>

text \<open>
  Concrete inputs at which the theorems below are instantiated: a table of distinct op
  codes, and a record encoder that knows two records.
\<close>

definition example_opcodes :: opcodes where
  "example_opcodes =
     \<lparr>AttrRequest = 0, ReadDirRequest = 1, ReadDirAllRequest = 2, FetchFileRequest = 3,
      ReadFileRequest = 4, WriteFileRequest = 5, SetAttrRequest = 6, CreateRequest = 7,
      RemoveRequest = 8, RenameRequest = 9, OpenRequest = 10, CloseRequest = 11,
      StatResponse = 12, StatsResponse = 13, FileDataResponse = 14, WriteResponse = 15,
      ErrorResponse = 16\<rparr>"

definition example_path :: RemotePath where
  "example_path = \<lparr>Hostname = ''h1'', Port = 8080, Path = ''/data/file.txt''\<rparr>"

definition example_error :: Error where
  "example_error = \<lparr>Err = ErrorString ''no such file''\<rparr>"

definition unsupported :: error where
  "unsupported = ErrorString ''unsupported''"

definition example_msgpack :: msgpack where
  "example_msgpack =
     \<lparr>mp_Marshal = (\<lambda>d. if d = PtrRemotePath example_path then Inr [1]
                         else if d = PtrError example_error then Inr [2]
                         else Inl unsupported),
      mp_nil = (\<lambda>b. Some unsupported),
      mp_RemotePath = (\<lambda>b. if b = [1] then Inr example_path else Inl unsupported),
      mp_ReadDirInfo = (\<lambda>b. Inl unsupported),
      mp_ReadInfo = (\<lambda>b. Inl unsupported),
      mp_WriteInfo = (\<lambda>b. Inl unsupported),
      mp_AttrInfo = (\<lambda>b. Inl unsupported),
      mp_CreateInfo = (\<lambda>b. Inl unsupported),
      mp_RenameInfo = (\<lambda>b. Inl unsupported),
      mp_OpenInfo = (\<lambda>b. Inl unsupported),
      mp_CloseInfo = (\<lambda>b. Inl unsupported),
      mp_Stat = (\<lambda>b. Inl unsupported),
      mp_DirInfo = (\<lambda>b. Inl unsupported),
      mp_FileChunk = (\<lambda>b. Inl unsupported),
      mp_WriteResult = (\<lambda>b. Inl unsupported),
      mp_Error = (\<lambda>b. if b = [2] then Inr example_error else Inl unsupported)\<rparr>"

definition example_request :: Packet where
  "example_request =
     \<lparr>ConnId = 1, Flags = 0, PacketId = 258, Op = 0, Data = PtrRemotePath example_path\<rparr>"

definition example_error_frame :: bytes where
  "example_error_frame = [0, 0, 0, 0, 0, 0, 0, 1, 16, 0, 1, 2]"

definition example_unknown_frame :: bytes where
  "example_unknown_frame = [0, 0, 0, 0, 0, 0, 0, 1, 200, 0, 1, 2]"

definition example_error_packet :: Packet where
  "example_error_packet =
     \<lparr>ConnId = 0, Flags = 1, PacketId = 1, Op = 16, Data = PtrError example_error\<rparr>"

definition example_actions :: "action list" where
  "example_actions = [Submit 0 ''h1'' (PtrRemotePath example_path) 0, Egress ''h1'' 0 True]"

definition example_tuple :: PacketChannelTuple where
  "example_tuple =
     \<lparr>Packet = \<lparr>ConnId = 0, Flags = 0, PacketId = 1, Op = 0, Data = PtrRemotePath example_path\<rparr>,
      Channel = 0\<rparr>"

definition example_pending :: talker where
  "example_pending =
     \<lparr>IdCounters = [''h1'' \<mapsto> 1],
      Pools = [''h1'' \<mapsto>
        \<lparr>Connections = [[BinaryMessage [0, 0, 0, 0, 0, 0, 0, 1, 0, 0, 0, 1]], []],
         SendingChannels = [[], []]\<rparr>],
      RequestBuffer = [GetMapKey ''h1'' 0 1 \<mapsto> example_tuple],
      Chans = [\<lparr>received = [], closed = False\<rparr>]\<rparr>"

text \<open>
  An execution of one remote with one connection in which a request is submitted and
  stamped \<^verbatim>\<open>n\<close> times over, and no response arrives.
\<close>

definition wrap_actions :: "nat \<Rightarrow> action list" where
  "wrap_actions n =
     concat (replicate n [Submit 0 ''h1'' (PtrRemotePath example_path) 0, Egress ''h1'' 0 True])"

definition example_queued :: PacketChannelTuple where
  "example_queued =
     \<lparr>Packet = \<lparr>ConnId = 0, Flags = 0, PacketId = 0, Op = 0, Data = PtrRemotePath example_path\<rparr>,
      Channel = 0\<rparr>"

definition example_submitted :: talker where
  "example_submitted =
     \<lparr>IdCounters = [''h1'' \<mapsto> 0],
      Pools = [''h1'' \<mapsto>
        \<lparr>Connections = [[], []],
         SendingChannels =
           [[example_queued], []]\<rparr>],
      RequestBuffer = Map.empty,
      Chans = [\<lparr>received = [], closed = False\<rparr>]\<rparr>"

definition single_lane :: "talker \<Rightarrow> u64 \<Rightarrow> bool" where
  "single_lane t c =
     (IdCounters t ''h1'' = Some c \<and>
      (\<exists>conn. Pools t ''h1'' = Some \<lparr>Connections = [conn], SendingChannels = [[]]\<rparr>))"

definition example_join :: "string \<Rightarrow> string \<Rightarrow> string" where
  "example_join dir name = dir @ ''/'' @ name"

definition example_world :: world where
  "example_world =
     \<lparr>nodes = [\<lparr>IsDir = True, RemotePath = 0, RemoteNodes = Some [''x'' \<mapsto> 1]\<rparr>,
               \<lparr>IsDir = False, RemotePath = 1, RemoteNodes = Some Map.empty\<rparr>,
               \<lparr>IsDir = True, RemotePath = 2, RemoteNodes = Some Map.empty\<rparr>],
      paths = [\<lparr>Hostname = ''h1'', Port = 8080, Path = ''/data''\<rparr>,
               \<lparr>Hostname = ''h1'', Port = 8080, Path = ''/data/x''\<rparr>,
               \<lparr>Hostname = ''h1'', Port = 8080, Path = ''/data/b''\<rparr>],
      sent = []\<rparr>"

definition example_userdb :: userdb where
  "example_userdb = \<lparr>Current_Uid = Some 501, staff_Gid = Some 20\<rparr>"

definition example_attr :: fuse_Attr where
  "example_attr = \<lparr>Uid = 0, Gid = 0, Size = 0, Mode = 0, Mtime = 0\<rparr>"

definition example_FileHandler :: FileHandler where
  "example_FileHandler =
     \<lparr>fh_Create = (\<lambda>rp name. (3, None)), fh_Mkdir = (\<lambda>rp name. None),
      fh_Remove = (\<lambda>rp name. None), fh_Rename = (\<lambda>rp dest. None)\<rparr>"

definition example_renamed :: world where
  "example_renamed =
     \<lparr>nodes = [\<lparr>IsDir = True, RemotePath = 0, RemoteNodes = Some Map.empty\<rparr>,
               \<lparr>IsDir = False, RemotePath = 1, RemoteNodes = Some Map.empty\<rparr>,
               \<lparr>IsDir = True, RemotePath = 2, RemoteNodes = Some [''y'' \<mapsto> 1]\<rparr>],
      paths = [\<lparr>Hostname = ''h1'', Port = 8080, Path = ''/data''\<rparr>,
               \<lparr>Hostname = ''h1'', Port = 8080, Path = ''/data/b/y''\<rparr>,
               \<lparr>Hostname = ''h1'', Port = 8080, Path = ''/data/b''\<rparr>],
      sent = []\<rparr>"

definition example_stat :: Stat where
  "example_stat = \<lparr>Name = ''y'', IsDir = False, Mode = 420, Size = 42, ModTime = 1000000\<rparr>"

definition example_agent_dir :: "u8 \<Rightarrow> Payload \<Rightarrow> Packet" where
  "example_agent_dir opCode payload =
     \<lparr>ConnId = 0, Flags = 1, PacketId = 1, Op = 13, Data = PtrDirInfo \<lparr>Stats = [example_stat]\<rparr>\<rparr>"

definition example_created :: world where
  "example_created =
     \<lparr>nodes = [\<lparr>IsDir = True, RemotePath = 0, RemoteNodes = Some [''x'' \<mapsto> 1]\<rparr>,
               \<lparr>IsDir = False, RemotePath = 1, RemoteNodes = Some Map.empty\<rparr>,
               \<lparr>IsDir = True, RemotePath = 2, RemoteNodes = Some [''new'' \<mapsto> 3]\<rparr>,
               \<lparr>IsDir = False, RemotePath = 3, RemoteNodes = Some Map.empty\<rparr>],
      paths = [\<lparr>Hostname = ''h1'', Port = 8080, Path = ''/data''\<rparr>,
               \<lparr>Hostname = ''h1'', Port = 8080, Path = ''/data/x''\<rparr>,
               \<lparr>Hostname = ''h1'', Port = 8080, Path = ''/data/b''\<rparr>,
               \<lparr>Hostname = ''h1'', Port = 8080, Path = ''/data/b/new''\<rparr>],
      sent = []\<rparr>"

definition example_removed :: world where
  "example_removed =
     \<lparr>nodes = [\<lparr>IsDir = True, RemotePath = 0, RemoteNodes = Some Map.empty\<rparr>,
               \<lparr>IsDir = False, RemotePath = 1, RemoteNodes = Some Map.empty\<rparr>,
               \<lparr>IsDir = True, RemotePath = 2, RemoteNodes = Some Map.empty\<rparr>],
      paths = [\<lparr>Hostname = ''h1'', Port = 8080, Path = ''/data''\<rparr>,
               \<lparr>Hostname = ''h1'', Port = 8080, Path = ''/data/x''\<rparr>,
               \<lparr>Hostname = ''h1'', Port = 8080, Path = ''/data/b''\<rparr>],
      sent = []\<rparr>"

text \<open>
  Rounds of the keepalive over one pool: the write on connection 0 always succeeds, the
  write on connection 1 fails at the first tick and succeeds from the second on.
\<close>

definition example_env :: "int \<Rightarrow> string list \<times> (string \<Rightarrow> nat \<Rightarrow> bool)" where
  "example_env tick = ([''h1''], \<lambda>hostname index. index = 0 \<or> 30000000000 < tick)"

section \<open>Properties of the frame codec\<close>

lemma PutUint64_nth:
  "(PutUint64 v @ rest) ! 0 = ucast (drop_bit 56 v)"
  "(PutUint64 v @ rest) ! 1 = ucast (drop_bit 48 v)"
  "(PutUint64 v @ rest) ! 2 = ucast (drop_bit 40 v)"
  "(PutUint64 v @ rest) ! 3 = ucast (drop_bit 32 v)"
  "(PutUint64 v @ rest) ! 4 = ucast (drop_bit 24 v)"
  "(PutUint64 v @ rest) ! 5 = ucast (drop_bit 16 v)"
  "(PutUint64 v @ rest) ! 6 = ucast (drop_bit 8 v)"
  "(PutUint64 v @ rest) ! 7 = ucast v"
  by (simp_all add: PutUint64_def)

lemma byte_of_u64:
  "bit (push_bit k (ucast (ucast (drop_bit k v :: u64) :: u8) :: u64)) n
     = (k \<le> n \<and> n < k + 8 \<and> n < 64 \<and> bit v n)"
  by (auto simp add: bit_simps)

lemma Uint64_PutUint64: "Uint64 (PutUint64 v @ rest) = v"
proof (rule bit_eqI)
  fix n assume "possible_bit TYPE(u64) n"
  then have n: "n < 64" by simp
  have b0: "bit (ucast (ucast v :: u8) :: u64) n = (n < 8 \<and> bit v n)"
    using byte_of_u64 [of 0 v n] n by auto
  show "bit (Uint64 (PutUint64 v @ rest)) n = bit v n"
    unfolding Uint64_def PutUint64_nth bit_or_iff byte_of_u64 b0
    using n by arith
qed

lemma length_PutUint64: "length (PutUint64 v) = 8"
  by (simp add: PutUint64_def)

lemma Marshal_frame:
  "mp_Marshal mp (Data p) = Inr bs \<Longrightarrow>
   Marshal mp p = Inr (PutUint64 (PacketId p) @ [Op p, ConnId p, Flags p] @ bs)"
  by (simp add: Marshal_def)

lemma Unmarshal_frame:
  assumes "msgpack_Unmarshal mp bs (payload_target oc op) = Inr d"
  shows "Unmarshal oc mp (PutUint64 v @ [op, c, f] @ bs)
         = Ok \<lparr>ConnId = c, Flags = f, PacketId = v, Op = op, Data = d\<rparr>"
proof -
  let ?frame = "PutUint64 v @ [op, c, f] @ bs"
  have len: "length ?frame = 11 + length bs" by (simp add: length_PutUint64)
  have n8: "?frame ! 8 = op" and n9: "?frame ! 9 = c" and n10: "?frame ! 10 = f"
    by (simp_all add: nth_append length_PutUint64)
  have dr: "drop 11 ?frame = bs" by (simp add: length_PutUint64)
  have id: "Uint64 ?frame = v" by (rule Uint64_PutUint64)
  show ?thesis
    unfolding Unmarshal_def Let_def n8 n9 n10 dr id using len assms by simp
qed

text \<open>
  Claim C4. Take a packet whose op code has a case in the switch of \<^verbatim>\<open>Unmarshal\<close>, and
  whose payload the record encoder encodes and decodes back at the type of that case.
  Then \<^verbatim>\<open>Marshal\<close> returns a frame, \<^verbatim>\<open>Unmarshal\<close> of that frame gives the packet back
  (same id, op, connection index, flags and payload), and the frame is the 11 byte
  header (bytes 0 to 7 the id in big-endian order, byte 8 the op, byte 9 the connection
  index, byte 10 the flags) followed by the encoded payload.
\<close>

theorem Unmarshal_Marshal:
  assumes "payload_target oc (Op p) = Some ty"
    and "mp_Marshal mp (Data p) = Inr bs"
    and "msgpack_Unmarshal mp bs (Some ty) = Inr (Data p)"
  shows "\<exists>frame. Marshal mp p = Inr frame \<and> Unmarshal oc mp frame = Ok p \<and>
           take 8 frame = PutUint64 (PacketId p) \<and> frame ! 8 = Op p \<and>
           frame ! 9 = ConnId p \<and> frame ! 10 = Flags p \<and> drop 11 frame = bs"
proof -
  let ?frame = "PutUint64 (PacketId p) @ [Op p, ConnId p, Flags p] @ bs"
  have m: "Marshal mp p = Inr ?frame" using assms(2) by (rule Marshal_frame)
  have "Unmarshal oc mp ?frame
        = Ok \<lparr>ConnId = ConnId p, Flags = Flags p, PacketId = PacketId p, Op = Op p, Data = Data p\<rparr>"
    using assms(1,3) by (intro Unmarshal_frame) simp
  then have u: "Unmarshal oc mp ?frame = Ok p" by simp
  have "take 8 ?frame = PutUint64 (PacketId p)" "?frame ! 8 = Op p" "?frame ! 9 = ConnId p"
    "?frame ! 10 = Flags p" "drop 11 ?frame = bs"
    by (simp_all add: nth_append length_PutUint64)
  with m u show ?thesis by blast
qed

lemma example_target: "payload_target example_opcodes (Op example_request) = Some T_RemotePath"
  by (simp add: payload_target_def example_opcodes_def example_request_def)

lemma example_enc: "mp_Marshal example_msgpack (Data example_request) = Inr [1]"
  by (simp add: example_msgpack_def example_request_def)

lemma example_dec:
  "msgpack_Unmarshal example_msgpack [1] (Some T_RemotePath) = Inr (Data example_request)"
  by (simp add: example_msgpack_def example_request_def)

theorem Unmarshal_Marshal_witness:
  "\<exists>frame. Marshal example_msgpack example_request = Inr frame \<and>
     Unmarshal example_opcodes example_msgpack frame = Ok example_request \<and>
     take 8 frame = PutUint64 (PacketId example_request) \<and> frame ! 8 = Op example_request \<and>
     frame ! 9 = ConnId example_request \<and> frame ! 10 = Flags example_request \<and>
     drop 11 frame = [1]"
  by (rule Unmarshal_Marshal [OF example_target example_enc example_dec])

lemma Uint64_example: "Uint64 [0, 0, 0, 0, 0, 0, 0, 1, a, b, c, d] = 1"
  by (simp add: Uint64_def)

lemma Unmarshal_example_error_frame:
  "Unmarshal example_opcodes example_msgpack example_error_frame = Ok example_error_packet"
  by (simp add: Unmarshal_def example_error_frame_def example_error_packet_def Uint64_example
      payload_target_def example_opcodes_def example_msgpack_def)

lemma payload_target_outside:
  "op \<notin> set (switch_ops oc) \<Longrightarrow> payload_target oc op = None"
  unfolding payload_target_def switch_ops_def by simp

lemma Unmarshal_not_Failed: "Unmarshal oc mp data \<noteq> Failed err"
  unfolding Unmarshal_def Let_def by (simp split: sum.splits)

lemma Unmarshal_decode_error:
  "11 \<le> length data \<Longrightarrow>
   msgpack_Unmarshal mp (drop 11 data) (payload_target oc (data ! 8)) = Inl err \<Longrightarrow>
   Unmarshal oc mp data = Fatal"
  unfolding Unmarshal_def Let_def by simp

text \<open>
  Claim C9. \<^verbatim>\<open>Unmarshal\<close> never hands an error to its caller. For an op byte that is
  not among the op codes of the switch, the decode target stays nil. When the decoder
  fails on the payload of a frame (of at least 11 bytes), \<^verbatim>\<open>Unmarshal\<close> ends in the fatal
  log, which stops the process.
\<close>

theorem Unmarshal_unsafe:
  "(\<forall>err. Unmarshal oc mp data \<noteq> Failed err) \<and>
   (data ! 8 \<notin> set (switch_ops oc) \<longrightarrow> payload_target oc (data ! 8) = None) \<and>
   (11 \<le> length data \<and>
    msgpack_Unmarshal mp (drop 11 data) (payload_target oc (data ! 8)) = Inl err' \<longrightarrow>
      Unmarshal oc mp data = Fatal)"
  using payload_target_outside Unmarshal_not_Failed Unmarshal_decode_error by blast

theorem Unmarshal_unsafe_witness:
  "payload_target example_opcodes 200 = None \<and>
   Unmarshal example_opcodes example_msgpack example_unknown_frame = Fatal"
  using Unmarshal_unsafe [of example_opcodes example_msgpack example_unknown_frame unsupported]
  by (simp add: example_unknown_frame_def switch_ops_def example_opcodes_def
      example_msgpack_def payload_target_def)

section \<open>Properties of the ingress worker\<close>

text \<open>
  Claim C10. The ingress worker converts the result of the pending-table lookup
  without checking that the key is present: for a response frame (flags not 0) whose
  key \<^verbatim>\<open>(hostname, conn_id, id)\<close> has no entry in the pending table, the turn of the
  worker panics on the conversion of the nil interface; the frame is not discarded.
\<close>

theorem unsolicited_response_panics:
  assumes "Pools t hostname = Some pool"
    and "unat index < length (Connections pool)"
    and "Unmarshal oc mp data = Ok packet"
    and "\<not> IsRequest packet"
    and "RequestBuffer t (GetMapKey hostname (ConnId packet) (PacketId packet)) = None"
  shows "processIncomingMessages_step oc mp t hostname index (Some data)
         = Panic NilInterfaceConversion"
  using assms by (simp add: processIncomingMessages_step_def)

lemma Startup_h1:
  "Startup [''h1''] 2 =
     \<lparr>IdCounters = [''h1'' \<mapsto> 0],
      Pools = [''h1'' \<mapsto> \<lparr>Connections = [[], []], SendingChannels = [[], []]\<rparr>],
      RequestBuffer = Map.empty, Chans = []\<rparr>"
  by (simp add: Startup_def Startup_root_def Talker_def mountRemoteRoot_def
      newFsConnectionPool_def Append_def eval_nat_numeral)

theorem unsolicited_response_panics_witness:
  "processIncomingMessages_step example_opcodes example_msgpack (Startup [''h1''] 2) ''h1'' 0
     (Some example_error_frame) = Panic NilInterfaceConversion"
  by (rule unsolicited_response_panics [where pool = "\<lparr>Connections = [[], []], SendingChannels = [[], []]\<rparr>",
        OF _ _ Unmarshal_example_error_frame])
     (simp_all add: Startup_h1 IsRequest_def example_error_packet_def)

section \<open>Keys of the pending table are injective\<close>

lemma of_char_digit:
  assumes "d < 10"
  shows "(of_char (digit d) :: nat) = 48 + d"
proof -
  have a: "(of_char (char_of (48 + d)) :: nat) = (48 + d) mod 256"
    by (rule of_char_of)
  have b: "(48 + d) mod 256 = 48 + d"
    using assms by (intro mod_less) arith
  show ?thesis
    unfolding digit_def by (rule trans [OF a b])
qed

lemma digit_inj:
  assumes "a < 10" and "b < 10" and "digit a = digit b"
  shows "a = b"
proof -
  have "(of_char (digit a) :: nat) = of_char (digit b)"
    by (rule arg_cong [OF assms(3)])
  then have "48 + a = 48 + b"
    by (simp only: of_char_digit [OF assms(1)] of_char_digit [OF assms(2)])
  then show ?thesis by arith
qed

lemma digit_range:
  assumes "d < 10"
  shows "48 \<le> (of_char (digit d) :: nat) \<and> (of_char (digit d) :: nat) < 58"
  unfolding of_char_digit [OF assms] using assms by arith

lemma digit_not_underscore: "d < 10 \<Longrightarrow> digit d \<noteq> CHR ''_''"
proof
  assume d: "d < 10" and e: "digit d = CHR ''_''"
  from e have "(of_char (digit d) :: nat) = of_char CHR ''_''" by (rule arg_cong)
  also have "\<dots> = 95" by simp
  finally show False using digit_range [OF d] by arith
qed

lemma digit_not_minus: "d < 10 \<Longrightarrow> digit d \<noteq> CHR ''-''"
proof
  assume d: "d < 10" and e: "digit d = CHR ''-''"
  from e have "(of_char (digit d) :: nat) = of_char CHR ''-''" by (rule arg_cong)
  also have "\<dots> = 45" by simp
  finally show False using digit_range [OF d] by arith
qed

declare decimal.simps [simp del]

lemma decimal_not_Nil: "decimal n \<noteq> []"
  by (subst decimal.simps) simp

lemma decimal_chars: "c \<in> set (decimal n) \<Longrightarrow> \<exists>d<10. c = digit d"
proof (induction n rule: decimal.induct)
  case (1 n)
  show ?case
  proof (cases "n < 10")
    case True
    with "1.prems" show ?thesis by (subst (asm) decimal.simps) auto
  next
    case False
    with "1.prems" have "c \<in> set (decimal (n div 10)) \<or> c = digit (n mod 10)"
      by (subst (asm) decimal.simps) auto
    then show ?thesis
    proof
      assume "c \<in> set (decimal (n div 10))"
      with "1.IH" False show ?thesis by blast
    next
      assume "c = digit (n mod 10)"
      moreover have "n mod 10 < 10" by simp
      ultimately show ?thesis by blast
    qed
  qed
qed

lemma decimal_inj: "decimal m = decimal n \<Longrightarrow> m = n"
proof (induction m arbitrary: n rule: decimal.induct)
  case (1 m)
  show ?case
  proof (cases "m < 10")
    case m: True
    show ?thesis
    proof (cases "n < 10")
      case True
      with m "1.prems" show ?thesis
        by (subst (asm) decimal.simps, subst (asm) (2) decimal.simps) (auto dest: digit_inj)
    next
      case False
      have "decimal n = decimal (n div 10) @ [digit (n mod 10)]"
        using False by (subst decimal.simps) simp
      moreover have "decimal m = [digit m]" using m by (subst decimal.simps) simp
      ultimately show ?thesis using "1.prems" decimal_not_Nil [of "n div 10"] by simp
    qed
  next
    case m: False
    have dm: "decimal m = decimal (m div 10) @ [digit (m mod 10)]"
      using m by (subst decimal.simps) simp
    show ?thesis
    proof (cases "n < 10")
      case True
      then have "decimal n = [digit n]" by (subst decimal.simps) simp
      with dm "1.prems" decimal_not_Nil [of "m div 10"] show ?thesis by simp
    next
      case False
      then have dn: "decimal n = decimal (n div 10) @ [digit (n mod 10)]"
        by (subst decimal.simps) simp
      from dm dn "1.prems" have a: "decimal (m div 10) = decimal (n div 10)"
        and b: "digit (m mod 10) = digit (n mod 10)" by simp_all
      from a "1.IH" m have "m div 10 = n div 10" by blast
      moreover have "m mod 10 = n mod 10"
        by (rule digit_inj [OF _ _ b]) simp_all
      ultimately show ?thesis by (metis div_mult_mod_eq)
    qed
  qed
qed

lemma FormatInt_inj: "FormatInt i = FormatInt j \<Longrightarrow> i = j"
proof -
  assume eq: "FormatInt i = FormatInt j"
  have hd_dec: "\<And>n. hd (decimal n) \<noteq> CHR ''-''"
  proof -
    fix n
    have "hd (decimal n) \<in> set (decimal n)" using decimal_not_Nil by simp
    then obtain d where "d < 10" "hd (decimal n) = digit d" using decimal_chars by blast
    then show "hd (decimal n) \<noteq> CHR ''-''" using digit_not_minus by simp
  qed
  show "i = j"
  proof (cases "i < 0")
    case i: True
    show ?thesis
    proof (cases "j < 0")
      case True
      with i eq have "nat (- i) = nat (- j)" by (auto simp: FormatInt_def dest: decimal_inj)
      with i True show ?thesis by simp
    next
      case False
      with i eq have "CHR ''-'' # decimal (nat (- i)) = decimal (nat j)" by (simp add: FormatInt_def)
      then have "hd (decimal (nat j)) = CHR ''-''" by (metis list.sel(1))
      with hd_dec show ?thesis by blast
    qed
  next
    case i: False
    show ?thesis
    proof (cases "j < 0")
      case True
      with i eq have "decimal (nat i) = CHR ''-'' # decimal (nat (- j))" by (simp add: FormatInt_def)
      then have "hd (decimal (nat i)) = CHR ''-''" by (metis list.sel(1))
      with hd_dec show ?thesis by blast
    next
      case False
      with i eq have "nat i = nat j" by (auto simp: FormatInt_def dest: decimal_inj)
      with i False show ?thesis by simp
    qed
  qed
qed

lemma decimal_no_underscore: "CHR ''_'' \<notin> set (decimal n)"
proof
  assume "CHR ''_'' \<in> set (decimal n)"
  then obtain d where "d < 10" "CHR ''_'' = digit d" using decimal_chars by blast
  then show False using digit_not_underscore [of d] by simp
qed

lemma FormatInt_no_underscore: "CHR ''_'' \<notin> set (FormatInt i)"
  by (simp add: FormatInt_def decimal_no_underscore)

lemma split_last_sep:
  assumes "xs @ c # ys = xs' @ c # ys'" and "c \<notin> set ys" and "c \<notin> set ys'"
  shows "xs = xs' \<and> ys = ys'"
  using assms
proof (induction xs arbitrary: xs')
  case Nil
  then show ?case by (cases xs') auto
next
  case (Cons x xs)
  then show ?case by (cases xs') auto
qed

lemma GetMapKey_inj:
  assumes "GetMapKey h c i = GetMapKey h' c' i'"
  shows "h = h' \<and> c = c' \<and> i = i'"
proof -
  let ?u = "CHR ''_''"
  from assms have eq: "(h @ ?u # FormatInt (uint c)) @ ?u # FormatInt (sint i)
      = (h' @ ?u # FormatInt (uint c')) @ ?u # FormatInt (sint i')"
    by (simp add: GetMapKey_def)
  from split_last_sep [OF eq FormatInt_no_underscore FormatInt_no_underscore]
  have a: "h @ ?u # FormatInt (uint c) = h' @ ?u # FormatInt (uint c')"
    and b: "FormatInt (sint i) = FormatInt (sint i')" by simp_all
  from split_last_sep [OF a FormatInt_no_underscore FormatInt_no_underscore]
  have "h = h'" and c: "FormatInt (uint c) = FormatInt (uint c')" by simp_all
  moreover from c have "uint c = uint c'" by (rule FormatInt_inj)
  then have "c = c'" by (simp only: word_uint_eq_iff)
  moreover from b have "sint i = sint i'" by (rule FormatInt_inj)
  then have "i = i'" by (rule signed_word_eqI)
  ultimately show ?thesis by simp
qed

section \<open>The routing invariant\<close>

lemma submit_effect:
  assumes "sendRequest_submit t opCode h payload rnd = Ok (ch, t')"
  shows "ch = length (Chans t)"
    and "Chans t' = Chans t @ [\<lparr>received = [], closed = False\<rparr>]"
    and "RequestBuffer t' = RequestBuffer t"
    and "IdCounters t' = IdCounters t"
    and "qchans t' h' i' = (if h' = h \<and> i' = rnd then qchans t h rnd @ [ch] else qchans t h' i')"
  using assms
  by (auto simp add: sendRequest_submit_def Let_def qchans_def queue_of_def nth_list_update
      split: option.splits if_splits)




lemma egress_effect:
  assumes "processSendingChannel_step mp t h index w = Ok t'"
  shows "(t' = t \<and> queue_of t h (unat index) = []) \<or>
         (\<exists>req rest cnt.
            queue_of t h (unat index) = req # rest \<and> IdCounters t h = Some cnt \<and>
            IdCounters t' = (IdCounters t)(h \<mapsto> cnt + 1) \<and>
            RequestBuffer t' = (RequestBuffer t)(GetMapKey h index (cnt + 1) \<mapsto>
               req\<lparr>Packet := (Packet req)\<lparr>ConnId := index, PacketId := cnt + 1\<rparr>\<rparr>) \<and>
            Chans t' = Chans t \<and>
            (\<forall>h' i'. queue_of t' h' i' =
               (if h' = h \<and> i' = unat index then rest else queue_of t h' i')))"
proof -
  from assms obtain pool where pool: "Pools t h = Some pool"
    and idx: "unat index < length (SendingChannels pool)"
    by (auto simp: processSendingChannel_step_def split: option.splits if_splits)
  show ?thesis
  proof (cases "SendingChannels pool ! unat index")
    case Nil
    with assms pool idx show ?thesis
      by (simp add: processSendingChannel_step_def queue_of_def)
  next
    case (Cons req rest)
    with assms pool idx obtain cnt where cnt: "IdCounters t h = Some cnt"
      by (auto simp: processSendingChannel_step_def split: option.splits)
    from assms pool idx Cons cnt
    have t': "t' = t\<lparr>IdCounters := (IdCounters t)(h \<mapsto> cnt + 1),
                 RequestBuffer := (RequestBuffer t)(GetMapKey h index (cnt + 1) \<mapsto>
                   req\<lparr>Packet := (Packet req)\<lparr>ConnId := index, PacketId := cnt + 1\<rparr>\<rparr>),
                 Pools := (Pools t)(h \<mapsto>
                   pool\<lparr>SendingChannels := (SendingChannels pool)[unat index := rest],
                        Connections := (Connections pool)
                          [unat index := Connections pool ! unat index @
                             [BinaryMessage (case Marshal mp ((Packet req)\<lparr>ConnId := index, PacketId := cnt + 1\<rparr>) of Inl err \<Rightarrow> [] | Inr d \<Rightarrow> d)]]\<rparr>)\<rparr>"
      by (simp add: processSendingChannel_step_def Let_def split: if_splits)
    have q: "queue_of t h (unat index) = req # rest"
      using pool idx Cons by (simp add: queue_of_def)
    have "queue_of t' h' i' = (if h' = h \<and> i' = unat index then rest else queue_of t h' i')" for h' i'
      using pool idx by (simp add: t' queue_of_def)
    with q cnt t' show ?thesis by simp
  qed
qed

lemma chan_update_all:
  "(c :: chan)\<lparr>received := r, closed := b\<rparr> = \<lparr>received = r, closed = b\<rparr>"
  by (cases c) simp

lemma ingress_effect:
  assumes "processIncomingMessages_step oc mp t h index frame = Ok t'"
  shows "t' = t \<or>
         (\<exists>data packet req.
            frame = Some data \<and> Unmarshal oc mp data = Ok packet \<and> \<not> IsRequest packet \<and>
            RequestBuffer t (GetMapKey h (ConnId packet) (PacketId packet)) = Some req \<and>
            \<not> (Channel req < length (Chans t) \<and> closed (Chans t ! Channel req)) \<and>
            t' = t\<lparr>Chans := (Chans t)[Channel req :=
                       \<lparr>received = received (Chans t ! Channel req) @ [packet], closed = True\<rparr>],
                    RequestBuffer := (RequestBuffer t)
                       (GetMapKey h (ConnId packet) (PacketId packet) := None)\<rparr>)"
proof -
  from assms obtain pool data packet where pool: "Pools t h = Some pool"
    and idx: "unat index < length (Connections pool)"
    and fr: "frame = Some data" and un: "Unmarshal oc mp data = Ok packet"
    by (auto simp: processIncomingMessages_step_def split: option.splits if_splits result.splits)
  show ?thesis
  proof (cases "IsRequest packet")
    case True
    with assms pool idx fr un show ?thesis by (simp add: processIncomingMessages_step_def)
  next
    case False
    let ?key = "GetMapKey h (ConnId packet) (PacketId packet)"
    from assms pool idx fr un False obtain req where req: "RequestBuffer t ?key = Some req"
      by (auto simp: processIncomingMessages_step_def Let_def split: option.splits)
    let ?ch = "Channel req"
    from assms pool idx fr un False req
    have nc: "\<not> (?ch < length (Chans t) \<and> closed (Chans t ! ?ch))"
      by (auto simp: processIncomingMessages_step_def Let_def chan_send_def)
    then have s: "chan_send (Chans t) ?ch packet
        = Ok ((Chans t)[?ch := (Chans t ! ?ch)\<lparr>received := received (Chans t ! ?ch) @ [packet]\<rparr>])"
      by (simp add: chan_send_def)
    have c: "chan_close ((Chans t)[?ch := (Chans t ! ?ch)\<lparr>received := received (Chans t ! ?ch) @ [packet]\<rparr>]) ?ch
        = Ok ((Chans t)[?ch := \<lparr>received = received (Chans t ! ?ch) @ [packet], closed = True\<rparr>])"
      using nc by (cases "?ch < length (Chans t)") (simp_all add: chan_close_def chan_update_all list_update_beyond)
    from assms pool idx fr un False req s c
    have "t' = t\<lparr>Chans := (Chans t)[?ch :=
                       \<lparr>received = received (Chans t ! ?ch) @ [packet], closed = True\<rparr>],
                    RequestBuffer := (RequestBuffer t)(?key := None)\<rparr>"
      by (simp add: processIncomingMessages_step_def Let_def)
    with fr un False req nc show ?thesis by blast
  qed
qed





lemma Append_funpow:
  "SendingChannels ((Append ^^ n) pool) = SendingChannels pool @ replicate n []"
  by (induction n) (simp_all add: Append_def replicate_append_same)

lemma startup_like_root: "startup_like t \<Longrightarrow> startup_like (Startup_root n h t)"
  by (auto simp: startup_like_def Startup_root_def mountRemoteRoot_def Append_funpow
      newFsConnectionPool_def split: if_splits)

lemma startup_like_fold: "startup_like t \<Longrightarrow> startup_like (fold (Startup_root n) hs t)"
  by (induction hs arbitrary: t) (simp_all add: startup_like_root)

lemma startup_like_Startup: "startup_like (Startup hs n)"
  unfolding Startup_def by (rule startup_like_fold) (simp add: startup_like_def Talker_def)








section \<open>Response routing\<close>




section \<open>Request ids\<close>

lemma unat_succ:
  fixes cnt :: u64
  assumes "unat cnt + 1 < 2 ^ 64"
  shows "unat (cnt + 1) = unat cnt + 1"
  using assms by (simp add: unat_word_ariths)

lemma id_inv_step:
  assumes inv: "id_inv t h ids"
    and st: "step oc mp t a = Ok t'"
    and bound: "length (ids @ ids_of h (case stamped_id t a of None \<Rightarrow> [] | Some x \<Rightarrow> [x])) < 2 ^ 64"
  shows "id_inv t' h (ids @ ids_of h (case stamped_id t a of None \<Rightarrow> [] | Some x \<Rightarrow> [x]))"
proof (cases a)
  case (Submit opCode h' payload rnd)
  with st obtain ch where "sendRequest_submit t opCode h' payload rnd = Ok (ch, t')"
    by (auto split: result.splits)
  from submit_effect(3,4) [OF this] inv Submit show ?thesis
    by (simp add: id_inv_def ids_of_def)
next
  case (Ingress h' index frame)
  with st have "processIncomingMessages_step oc mp t h' index frame = Ok t'" by simp
  note e = ingress_effect [OF this]
  from e have c: "IdCounters t' = IdCounters t" by auto
  from e have r: "RequestBuffer t k = Some tup" if "RequestBuffer t' k = Some tup" for k tup
    using that by (auto split: if_splits)
  have "id_inv t' h ids"
    using inv r unfolding id_inv_def c by blast
  with Ingress show ?thesis by (simp add: ids_of_def)
next
  case (Egress h' index w)
  with st have "processSendingChannel_step mp t h' index w = Ok t'" by simp
  from egress_effect [OF this] show ?thesis
  proof
    assume "t' = t \<and> queue_of t h' (unat index) = []"
    with inv Egress show ?thesis by (simp add: ids_of_def)
  next
    assume "\<exists>req rest cnt.
            queue_of t h' (unat index) = req # rest \<and> IdCounters t h' = Some cnt \<and>
            IdCounters t' = (IdCounters t)(h' \<mapsto> cnt + 1) \<and>
            RequestBuffer t' = (RequestBuffer t)(GetMapKey h' index (cnt + 1) \<mapsto>
               req\<lparr>Packet := (Packet req)\<lparr>ConnId := index, PacketId := cnt + 1\<rparr>\<rparr>) \<and>
            Chans t' = Chans t \<and>
            (\<forall>h'' i'. queue_of t' h'' i' =
               (if h'' = h' \<and> i' = unat index then rest else queue_of t h'' i'))"
    then obtain req rest cnt where e: "queue_of t h' (unat index) = req # rest"
      "IdCounters t h' = Some cnt" "IdCounters t' = (IdCounters t)(h' \<mapsto> cnt + 1)"
      "RequestBuffer t' = (RequestBuffer t)(GetMapKey h' index (cnt + 1) \<mapsto>
               req\<lparr>Packet := (Packet req)\<lparr>ConnId := index, PacketId := cnt + 1\<rparr>\<rparr>)"
      by blast
    have sid: "stamped_id t a = Some (h', cnt + 1)" by (simp add: Egress e)
    show ?thesis
    proof (cases "h' = h")
      case False
      then have "RequestBuffer t' (GetMapKey h c i) = RequestBuffer t (GetMapKey h c i)" for c i
        using GetMapKey_inj [of h c i h' index "cnt + 1"] by (auto simp: e(4))
      with inv False show ?thesis by (simp add: id_inv_def sid ids_of_def e(3))
    next
      case True
      from inv e(2) True have n: "unat cnt = length ids" by (simp add: id_inv_def)
      from bound have b: "unat cnt + 1 < 2 ^ 64" by (simp add: sid ids_of_def True n)
      have u: "unat (cnt + 1) = length ids + 1" using unat_succ [OF b] n by simp
      have new: "cnt + 1 \<notin> set ids"
      proof
        assume "cnt + 1 \<in> set ids"
        with inv have "unat (cnt + 1) \<le> length ids" by (simp add: id_inv_def)
        with u show False by simp
      qed
      have old: "i \<in> set ids" if "RequestBuffer t (GetMapKey h c i) = Some tup" for c i tup
        using inv that unfolding id_inv_def by blast
      have rb: "i \<in> set ids \<or> i = cnt + 1" if "RequestBuffer t' (GetMapKey h c i) = Some tup" for c i tup
      proof (cases "GetMapKey h c i = GetMapKey h' index (cnt + 1)")
        case True
        then show ?thesis using GetMapKey_inj by blast
      next
        case False
        with that have "RequestBuffer t (GetMapKey h c i) = Some tup" by (simp add: e(4))
        then show ?thesis using old by blast
      qed
      have "id_inv t' h (ids @ [cnt + 1])"
        unfolding id_inv_def
      proof (intro conjI allI impI ballI)
        fix c assume "IdCounters t' h = Some c"
        with True u show "unat c = length (ids @ [cnt + 1])" by (auto simp: e(3))
      next
        show "distinct (ids @ [cnt + 1])" using inv new by (simp add: id_inv_def)
      next
        fix i assume "i \<in> set (ids @ [cnt + 1])"
        with inv u show "0 < unat i" "unat i \<le> length (ids @ [cnt + 1])"
          by (auto simp: id_inv_def le_SucI)
      next
        fix c i tup assume "RequestBuffer t' (GetMapKey h c i) = Some tup"
        from rb [OF this] show "i \<in> set (ids @ [cnt + 1])" by auto
      qed
      then show ?thesis by (simp add: sid ids_of_def True)
    qed
  qed
qed

lemma id_inv_run:
  "id_inv t h ids \<Longrightarrow> run oc mp t acts = Ok t' \<Longrightarrow>
   length (ids @ ids_of h (stamps oc mp t acts)) < 2 ^ 64 \<Longrightarrow>
   id_inv t' h (ids @ ids_of h (stamps oc mp t acts))"
proof (induction acts arbitrary: t ids)
  case Nil
  then show ?case by (simp add: ids_of_def)
next
  case (Cons a acts)
  from Cons.prems(2) obtain t1 where s: "step oc mp t a = Ok t1" and r: "run oc mp t1 acts = Ok t'"
    by (auto split: result.splits)
  let ?new = "ids_of h (case stamped_id t a of None \<Rightarrow> [] | Some x \<Rightarrow> [x])"
  have sp: "ids_of h (stamps oc mp t (a # acts)) = ?new @ ids_of h (stamps oc mp t1 acts)"
    by (simp add: s ids_of_def)
  from Cons.prems(3) have b1: "length (ids @ ?new) < 2 ^ 64" unfolding sp by simp
  from id_inv_step [OF Cons.prems(1) s b1] have i1: "id_inv t1 h (ids @ ?new)" .
  from Cons.prems(3) have b2: "length ((ids @ ?new) @ ids_of h (stamps oc mp t1 acts)) < 2 ^ 64"
    unfolding sp by simp
  from Cons.IH [OF i1 r b2] show ?case unfolding sp by simp
qed

lemma id_inv_Startup: "id_inv (Startup hs n) h []"
proof -
  have s: "startup_like (Startup hs n)" by (rule startup_like_Startup)
  then have "unat cnt = 0" if "IdCounters (Startup hs n) h = Some cnt" for cnt
    using that unfolding startup_like_def by fastforce
  moreover from s have "RequestBuffer (Startup hs n) k = None" for k
    by (simp add: startup_like_def)
  ultimately show ?thesis by (simp add: id_inv_def)
qed

lemma stamps_append:
  "run oc mp t xs = Ok t' \<Longrightarrow> stamps oc mp t (xs @ ys) = stamps oc mp t xs @ stamps oc mp t' ys"
  by (induction xs arbitrary: t) (auto split: result.splits)

lemma run_append:
  "run oc mp t xs = Ok t' \<Longrightarrow> run oc mp t (xs @ ys) = run oc mp t' ys"
  by (induction xs arbitrary: t) (auto split: result.splits)

lemma egress_written:
  assumes "Pools t h = Some pool" and "unat index < length (SendingChannels pool)"
    and "SendingChannels pool ! unat index = req # rest"
    and "IdCounters t h = Some cnt"
    and "processSendingChannel_step mp t h index w = Ok t'"
  shows "\<exists>pool'. Pools t' h = Some pool' \<and>
           Connections pool' ! unat index = Connections pool ! unat index @
             [BinaryMessage (case Marshal mp ((Packet req)\<lparr>ConnId := index, PacketId := cnt + 1\<rparr>) of
                               Inl err \<Rightarrow> [] | Inr d \<Rightarrow> d)]"
  using assms
  by (auto simp: processSendingChannel_step_def Let_def split: if_splits)

text \<open>
  Claim C3, amended. Take an execution from \<^verbatim>\<open>Startup\<close> and an egress turn for
  connection \<^verbatim>\<open>index\<close> of a remote that takes a tuple off its queue, such that fewer than
  \<^verbatim>\<open>2 ^ 64\<close> ids have been stamped for this remote, this turn included. The turn
  stamps the packet with \<^verbatim>\<open>conn_id := index\<close> and with the incremented counter of the
  remote as id, records the stamped tuple in the pending table under the key
  \<^verbatim>\<open>(hostname, index, id)\<close> and writes the frame on connection \<^verbatim>\<open>index\<close>. No request
  pending for this remote, on any connection, has this id; the id differs from every id
  stamped for the remote before, so the ids stamped for the remote are pairwise distinct.
\<close>

theorem request_ids_unique:
  assumes run: "run oc mp (Startup hostnames poolCount) acts = Ok t"
    and pool: "Pools t hostname = Some pool"
    and index: "unat index < length (SendingChannels pool)"
    and queue: "SendingChannels pool ! unat index = req # rest"
    and turn: "processSendingChannel_step mp t hostname index write_ok = Ok t'"
    and bound: "length (ids_of hostname (stamps oc mp (Startup hostnames poolCount)
                  (acts @ [Egress hostname index write_ok]))) < 2 ^ 64"
  shows "\<exists>counter pool'.
           IdCounters t hostname = Some counter \<and>
           IdCounters t' hostname = Some (counter + 1) \<and>
           RequestBuffer t' (GetMapKey hostname index (counter + 1)) =
             Some (req\<lparr>Packet := (Packet req)\<lparr>ConnId := index, PacketId := counter + 1\<rparr>\<rparr>) \<and>
           Pools t' hostname = Some pool' \<and>
           Connections pool' ! unat index = Connections pool ! unat index @
             [BinaryMessage (case Marshal mp ((Packet req)\<lparr>ConnId := index, PacketId := counter + 1\<rparr>) of
                               Inl err \<Rightarrow> [] | Inr d \<Rightarrow> d)] \<and>
           (\<forall>c. RequestBuffer t (GetMapKey hostname c (counter + 1)) = None) \<and>
           counter + 1 \<notin> set (ids_of hostname (stamps oc mp (Startup hostnames poolCount) acts)) \<and>
           ids_of hostname (stamps oc mp (Startup hostnames poolCount)
              (acts @ [Egress hostname index write_ok])) =
             ids_of hostname (stamps oc mp (Startup hostnames poolCount) acts) @ [counter + 1] \<and>
           distinct (ids_of hostname (stamps oc mp (Startup hostnames poolCount)
              (acts @ [Egress hostname index write_ok])))"
proof -
  let ?S = "Startup hostnames poolCount"
  let ?a = "Egress hostname index write_ok"
  let ?ids = "ids_of hostname (stamps oc mp ?S acts)"
  have q: "queue_of t hostname (unat index) = req # rest"
    using pool index queue by (simp add: queue_of_def)
  from egress_effect [OF turn] q obtain cnt where
    cnt: "IdCounters t hostname = Some cnt" and cnt': "IdCounters t' = (IdCounters t)(hostname \<mapsto> cnt + 1)"
    and rb: "RequestBuffer t' = (RequestBuffer t)(GetMapKey hostname index (cnt + 1) \<mapsto>
               req\<lparr>Packet := (Packet req)\<lparr>ConnId := index, PacketId := cnt + 1\<rparr>\<rparr>)"
    by auto
  have st: "step oc mp t ?a = Ok t'" using turn by simp
  have sid: "stamped_id t ?a = Some (hostname, cnt + 1)" by (simp add: q cnt)
  have app: "stamps oc mp ?S (acts @ [?a]) = stamps oc mp ?S acts @ [(hostname, cnt + 1)]"
    by (simp add: stamps_append [OF run] turn q cnt)
  then have ids: "ids_of hostname (stamps oc mp ?S (acts @ [?a])) = ?ids @ [cnt + 1]"
    by (simp add: ids_of_def)
  from bound have b0: "length ([] @ ?ids) < 2 ^ 64" unfolding ids by simp
  from id_inv_run [OF id_inv_Startup run b0] have inv: "id_inv t hostname ?ids" by simp
  from bound have b1: "length (?ids @ ids_of hostname (case stamped_id t ?a of None \<Rightarrow> [] | Some x \<Rightarrow> [x])) < 2 ^ 64"
    unfolding ids sid by (simp add: ids_of_def)
  from id_inv_step [OF inv st b1] have inv': "id_inv t' hostname (?ids @ [cnt + 1])"
    unfolding sid by (simp add: ids_of_def)
  then have dist: "distinct (?ids @ [cnt + 1])" by (simp add: id_inv_def)
  then have new: "cnt + 1 \<notin> set ?ids" by simp
  have fresh: "RequestBuffer t (GetMapKey hostname c (cnt + 1)) = None" for c
  proof (cases "RequestBuffer t (GetMapKey hostname c (cnt + 1))")
    case None
    then show ?thesis .
  next
    case (Some tup)
    with inv have "cnt + 1 \<in> set ?ids" unfolding id_inv_def by blast
    with new show ?thesis by simp
  qed
  from egress_written [OF pool index queue cnt turn] obtain pool' where
    w: "Pools t' hostname = Some pool'"
      "Connections pool' ! unat index = Connections pool ! unat index @
         [BinaryMessage (case Marshal mp ((Packet req)\<lparr>ConnId := index, PacketId := cnt + 1\<rparr>) of
                               Inl err \<Rightarrow> [] | Inr d \<Rightarrow> d)]"
    by blast
  have "IdCounters t' hostname = Some (cnt + 1)" by (simp add: cnt')
  moreover have "RequestBuffer t' (GetMapKey hostname index (cnt + 1)) =
             Some (req\<lparr>Packet := (Packet req)\<lparr>ConnId := index, PacketId := cnt + 1\<rparr>\<rparr>)"
    by (simp add: rb)
  ultimately show ?thesis using cnt w fresh new ids dist by (metis (no_types, lifting))
qed

lemma run_example_submit:
  "run example_opcodes example_msgpack (Startup [''h1''] 2)
     [Submit 0 ''h1'' (PtrRemotePath example_path) 0] = Ok example_submitted"
  by (simp add: Startup_h1 sendRequest_submit_def example_submitted_def example_queued_def)

lemma turn_example_submitted:
  "processSendingChannel_step example_msgpack example_submitted ''h1'' 0 True = Ok example_pending"
  by (simp add: processSendingChannel_step_def Marshal_def PutUint64_def example_msgpack_def
      example_pending_def example_tuple_def example_submitted_def example_queued_def)

theorem request_ids_unique_witness:
  "IdCounters example_submitted ''h1'' = Some 0 \<and>
   IdCounters example_pending ''h1'' = Some 1 \<and>
   RequestBuffer example_pending (GetMapKey ''h1'' 0 1) = Some example_tuple \<and>
   (\<forall>c. RequestBuffer example_submitted (GetMapKey ''h1'' c 1) = None) \<and>
   ids_of ''h1'' (stamps example_opcodes example_msgpack (Startup [''h1''] 2) example_actions) = [1]"
proof -
  let ?pool = "\<lparr>Connections = [[], []] :: wsmsg list list,
         SendingChannels =
           [[example_queued], []]\<rparr>"
  have pool: "Pools example_submitted ''h1'' = Some ?pool"
    by (simp add: example_submitted_def)
  have index: "unat (0 :: u8) < length (SendingChannels ?pool)" by simp
  have queue: "SendingChannels ?pool ! unat (0 :: u8) =
      example_queued # []"
    by simp
  have c0: "IdCounters example_submitted ''h1'' = Some 0" by (simp add: example_submitted_def)
  have q0: "queue_of example_submitted ''h1'' 0 =
      [example_queued]"
    by (simp add: queue_of_def example_submitted_def)
  have s1: "stamps example_opcodes example_msgpack (Startup [''h1''] 2)
      [Submit 0 ''h1'' (PtrRemotePath example_path) 0] = []"
    by (simp split: result.splits)
  have s2: "stamps example_opcodes example_msgpack example_submitted [Egress ''h1'' 0 True]
      = [(''h1'', 1)]"
    by (simp add: turn_example_submitted q0 c0)
  have st: "stamps example_opcodes example_msgpack (Startup [''h1''] 2)
      ([Submit 0 ''h1'' (PtrRemotePath example_path) 0] @ [Egress ''h1'' 0 True]) = [(''h1'', 1)]"
    unfolding stamps_append [OF run_example_submit] s1 s2 by simp
  have bound: "length (ids_of ''h1'' (stamps example_opcodes example_msgpack (Startup [''h1''] 2)
      ([Submit 0 ''h1'' (PtrRemotePath example_path) 0] @ [Egress ''h1'' 0 True]))) < 2 ^ 64"
    unfolding st by (simp add: ids_of_def)
  from request_ids_unique [OF run_example_submit pool index queue turn_example_submitted bound]
  obtain counter where
    1: "IdCounters example_submitted ''h1'' = Some counter"
    and 2: "IdCounters example_pending ''h1'' = Some (counter + 1)"
    and 3: "RequestBuffer example_pending (GetMapKey ''h1'' 0 (counter + 1)) =
             Some (example_queued\<lparr>Packet := (Packet example_queued)\<lparr>ConnId := 0, PacketId := counter + 1\<rparr>\<rparr>)"
    and 4: "\<forall>c. RequestBuffer example_submitted (GetMapKey ''h1'' c (counter + 1)) = None"
    by blast
  from 1 c0 have counter: "counter = 0" by simp
  have 5: "ids_of ''h1'' (stamps example_opcodes example_msgpack (Startup [''h1''] 2) example_actions) = [1]"
    using st by (simp only: example_actions_def append.simps ids_of_def) simp
  from 2 3 4 5 c0 show ?thesis
    unfolding counter by (simp add: example_tuple_def example_queued_def)
qed

lemma single_lane_pair:
  assumes "single_lane t c"
  shows "\<exists>t'. run example_opcodes example_msgpack t
             [Submit 0 ''h1'' (PtrRemotePath example_path) 0, Egress ''h1'' 0 True] = Ok t' \<and>
           single_lane t' (c + 1) \<and>
           stamps example_opcodes example_msgpack t
             [Submit 0 ''h1'' (PtrRemotePath example_path) 0, Egress ''h1'' 0 True] = [(''h1'', c + 1)]"
  using assms
  by (auto simp: single_lane_def sendRequest_submit_def processSendingChannel_step_def
      queue_of_def Let_def)

lemma single_lane_laps:
  "single_lane t c \<Longrightarrow>
   \<exists>t'. run example_opcodes example_msgpack t (wrap_actions n) = Ok t' \<and>
        single_lane t' (c + of_nat n) \<and>
        stamps example_opcodes example_msgpack t (wrap_actions n)
          = map (\<lambda>k. (''h1'', c + of_nat (Suc k))) [0..<n]"
proof (induction n arbitrary: t c)
  case 0
  then show ?case by (simp add: wrap_actions_def)
next
  case (Suc n)
  let ?pair = "[Submit 0 ''h1'' (PtrRemotePath example_path) 0, Egress ''h1'' 0 True]"
  have w: "wrap_actions (Suc n) = ?pair @ wrap_actions n" by (simp add: wrap_actions_def)
  from single_lane_pair [OF Suc.prems] obtain t1 where
    r1: "run example_opcodes example_msgpack t ?pair = Ok t1" and l1: "single_lane t1 (c + 1)"
    and s1: "stamps example_opcodes example_msgpack t ?pair = [(''h1'', c + 1)]"
    by blast
  from Suc.IH [OF l1] obtain t' where
    r2: "run example_opcodes example_msgpack t1 (wrap_actions n) = Ok t'"
    and l2: "single_lane t' (c + 1 + of_nat n)"
    and s2: "stamps example_opcodes example_msgpack t1 (wrap_actions n)
          = map (\<lambda>k. (''h1'', c + 1 + of_nat (Suc k))) [0..<n]"
    by blast
  have "run example_opcodes example_msgpack t (wrap_actions (Suc n)) = Ok t'"
    unfolding w using run_append [OF r1] r2 by simp
  moreover have "single_lane t' (c + of_nat (Suc n))"
    using l2 by (simp add: add.commute add.left_commute)
  moreover have "stamps example_opcodes example_msgpack t (wrap_actions (Suc n))
          = map (\<lambda>k. (''h1'', c + of_nat (Suc k))) [0..<Suc n]"
    unfolding w stamps_append [OF r1] s1 s2 map_upt_Suc
    by (simp add: add.commute add.left_commute)
  ultimately show ?case by blast
qed

lemma single_lane_Startup: "single_lane (Startup [''h1''] 1) 0"
  by (simp add: single_lane_def Startup_def Startup_root_def Talker_def mountRemoteRoot_def
      newFsConnectionPool_def Append_def)

lemma wrapped: "(of_nat (Suc (2 ^ 64)) :: u64) = 1"
  by simp

text \<open>
  Claim C3 as stated fails once the 64 bit counter wraps around: in the execution that
  submits and stamps \<^verbatim>\<open>2 ^ 64 + 1\<close> requests on the one connection of a remote, with no
  response, the first and the last request get the same connection index 0 and the same
  id 1.
\<close>

theorem request_ids_repeat:
  "(\<exists>t. run example_opcodes example_msgpack (Startup [''h1''] 1) (wrap_actions (2 ^ 64 + 1)) = Ok t) \<and>
   length (wrap_actions (2 ^ 64 + 1)) = 2 ^ 65 + 2 \<and>
   ids_of ''h1'' (stamps example_opcodes example_msgpack (Startup [''h1''] 1)
     (wrap_actions (2 ^ 64 + 1))) ! 0 = 1 \<and>
   ids_of ''h1'' (stamps example_opcodes example_msgpack (Startup [''h1''] 1)
     (wrap_actions (2 ^ 64 + 1))) ! (2 ^ 64) = 1 \<and>
   \<not> distinct (ids_of ''h1'' (stamps example_opcodes example_msgpack (Startup [''h1''] 1)
     (wrap_actions (2 ^ 64 + 1))))"
proof -
  let ?n = "2 ^ 64 + 1 :: nat"
  let ?ids = "ids_of ''h1'' (stamps example_opcodes example_msgpack (Startup [''h1''] 1) (wrap_actions ?n))"
  from single_lane_laps [OF single_lane_Startup, of ?n] obtain t where
    r: "run example_opcodes example_msgpack (Startup [''h1''] 1) (wrap_actions ?n) = Ok t"
    and s: "stamps example_opcodes example_msgpack (Startup [''h1''] 1) (wrap_actions ?n)
          = map (\<lambda>k. (''h1'', 0 + of_nat (Suc k))) [0..<?n]"
    by blast
  have ids: "?ids = map (\<lambda>k. of_nat (Suc k)) [0..<?n]"
    unfolding s by (simp add: ids_of_def comp_def)
  have len: "length ?ids = ?n" unfolding ids by simp
  have a: "?ids ! 0 = 1" unfolding ids by (subst nth_map) simp_all
  have b: "?ids ! (2 ^ 64) = 1" unfolding ids by (subst nth_map) (simp_all add: wrapped)
  have "\<not> distinct ?ids"
  proof
    assume "distinct ?ids"
    then have "?ids ! 0 \<noteq> ?ids ! (2 ^ 64)"
      using len by (simp add: nth_eq_iff_index_eq)
    with a b show False by simp
  qed
  moreover have "length (wrap_actions ?n) = 2 ^ 65 + 2"
    by (simp add: wrap_actions_def length_concat sum_list_replicate)
  ultimately show ?thesis using r a b by blast
qed

section \<open>Properties of the node layer\<close>

lemma andThen_simps [simp]:
  "andThen (Ok x, w) f = f x w"
  "andThen (Failed err, w) f = (Failed err, w)"
  "andThen (Fatal, w) f = (Fatal, w)"
  "andThen (Panic p, w) f = (Panic p, w)"
  by (simp_all add: andThen_def)

lemma andThen_Ok:
  "andThen rw f = (Ok y, w') \<Longrightarrow> \<exists>x w1. rw = (Ok x, w1) \<and> f x w1 = (Ok y, w')"
  by (cases rw; cases "fst rw") (auto simp: andThen_def)

lemma path_of_Ok:
  "path_of w rn = (Ok rp, w') \<longleftrightarrow>
     w' = w \<and> rn < length (nodes w) \<and> RemotePath (nodes w ! rn) < length (paths w) \<and>
     rp = paths w ! RemotePath (nodes w ! rn)"
  by (auto simp: path_of_def node_at_def path_at_def)

lemma msgpack_Unmarshal_not_ValError:
  "msgpack_Unmarshal mp b target = Inr d \<Longrightarrow> assert_Error d = None"
proof (cases target)
  case None
  then show "msgpack_Unmarshal mp b target = Inr d \<Longrightarrow> assert_Error d = None"
    by (auto split: option.splits)
next
  case (Some ty)
  then show "msgpack_Unmarshal mp b target = Inr d \<Longrightarrow> assert_Error d = None"
    by (cases ty) (auto simp: map_sum_def split: sum.splits)
qed

lemma Unmarshal_not_ValError:
  assumes "Unmarshal oc mp data = Ok pkt"
  shows "assert_Error (Data pkt) = None"
proof -
  from assms obtain d where "msgpack_Unmarshal mp (drop 11 data) (payload_target oc (data ! 8)) = Inr d"
    and "Data pkt = d"
    by (auto simp: Unmarshal_def Let_def split: if_splits sum.splits)
  then show ?thesis using msgpack_Unmarshal_not_ValError by simp
qed

lemma Attr_no_Error_no_Stat:
  assumes "path_of w rn = (Ok rp, w)"
    and "Data (agent (AttrRequest oc) (PtrRemotePath rp)) = PtrError e"
  shows "Attr oc agent db w rn attr
         = (Panic WrongTypeConversion, w\<lparr>sent := sent w @ [(AttrRequest oc, PtrRemotePath rp)]\<rparr>)"
  using assms by (simp add: Attr_def sendRequest_def)

text \<open>
  Claim C2. The claim says that \<^verbatim>\<open>Attr\<close> returns the error of an error response. The
  code does not: \<^verbatim>\<open>Unmarshal\<close> decodes an error response into a pointer \<^verbatim>\<open>*Error\<close>,
  the assertion \<^verbatim>\<open>resp.Data.(Error)\<close> on the struct type fails for it, and \<^verbatim>\<open>Attr\<close>
  goes on to \<^verbatim>\<open>resp.Data.(*Stat)\<close>, which panics. Here the code is run on the frame of
  an error response.
\<close>

theorem Attr_error_response_panics:
  "Unmarshal example_opcodes example_msgpack example_error_frame = Ok example_error_packet \<and>
   Attr example_opcodes (\<lambda>opCode payload. example_error_packet) example_userdb example_world 0
     example_attr
   = (Panic WrongTypeConversion,
      example_world\<lparr>sent := [(0, PtrRemotePath \<lparr>Hostname = ''h1'', Port = 8080, Path = ''/data''\<rparr>)]\<rparr>)"
proof -
  have p: "path_of example_world 0
      = (Ok \<lparr>Hostname = ''h1'', Port = 8080, Path = ''/data''\<rparr>, example_world)"
    by (simp add: path_of_Ok example_world_def)
  have d: "Data ((\<lambda>opCode payload. example_error_packet) (AttrRequest example_opcodes)
      (PtrRemotePath \<lparr>Hostname = ''h1'', Port = 8080, Path = ''/data''\<rparr>)) = PtrError example_error"
    by (simp add: example_error_packet_def)
  have "Attr example_opcodes (\<lambda>opCode payload. example_error_packet) example_userdb example_world 0
     example_attr
   = (Panic WrongTypeConversion,
      example_world\<lparr>sent := sent example_world @ [(AttrRequest example_opcodes,
         PtrRemotePath \<lparr>Hostname = ''h1'', Port = 8080, Path = ''/data''\<rparr>)]\<rparr>)"
    by (rule Attr_no_Error_no_Stat [OF p d])
  then show ?thesis
    using Unmarshal_example_error_frame by (simp add: example_world_def example_opcodes_def)
qed

lemma node_at_Ok: "node_at w r = (Ok node, w') \<longleftrightarrow> w' = w \<and> r < length (nodes w) \<and> node = nodes w ! r"
  by (auto simp: node_at_def)

lemma path_at_Ok: "path_at w r = (Ok rp, w') \<longleftrightarrow> w' = w \<and> r < length (paths w) \<and> rp = paths w ! r"
  by (auto simp: path_at_def)

lemma set_child_Ok:
  "set_child w rn name child = (Ok u, w') \<longleftrightarrow>
     rn < length (nodes w) \<and>
     (\<exists>m. RemoteNodes (nodes w ! rn) = Some m \<and>
          w' = w\<lparr>nodes := (nodes w)[rn := (nodes w ! rn)\<lparr>RemoteNodes := Some (m(name \<mapsto> child))\<rparr>]\<rparr>)"
  by (auto simp: set_child_def node_at_def split: option.splits)

lemma delete_child_Ok:
  "delete_child w rn name = (Ok u, w') \<longleftrightarrow>
     rn < length (nodes w) \<and>
     w' = (case RemoteNodes (nodes w ! rn) of
             None \<Rightarrow> w
           | Some m \<Rightarrow> w\<lparr>nodes := (nodes w)[rn := (nodes w ! rn)\<lparr>RemoteNodes := Some (m(name := None))\<rparr>]\<rparr>)"
  by (auto simp: delete_child_def node_at_def split: option.splits)

lemma Rename_Ok:
  assumes "Rename fh path_Join w a oldName newName (RemoteNodePtr b) = (Ok (), w')"
  shows "\<exists>c m w1 w2 mb.
           a < length (nodes w) \<and> b < length (nodes w) \<and> c < length (nodes w) \<and>
           RemotePath (nodes w ! b) < length (paths w) \<and>
           RemotePath (nodes w ! c) < length (paths w) \<and>
           RemoteNodes (nodes w ! a) = Some m \<and> m oldName = Some c \<and>
           w1 = w\<lparr>paths := (paths w)[RemotePath (nodes w ! c) :=
                   (paths w ! RemotePath (nodes w ! c))
                     \<lparr>Path := path_Join (Path (paths w ! RemotePath (nodes w ! b))) newName\<rparr>]\<rparr> \<and>
           w2 = w1\<lparr>nodes := (nodes w1)[a := (nodes w1 ! a)\<lparr>RemoteNodes := Some (m(oldName := None))\<rparr>]\<rparr> \<and>
           RemoteNodes (nodes w2 ! b) = Some mb \<and>
           w' = w2\<lparr>nodes := (nodes w2)[b := (nodes w2 ! b)\<lparr>RemoteNodes := Some (mb(newName \<mapsto> c))\<rparr>]\<rparr>"
proof -
  from assms obtain rp where 1: "path_of w a = (Ok rp, w)"
    by (auto simp: Rename_def path_of_Ok dest!: andThen_Ok)
  from assms 1 obtain bp where 2: "path_of w b = (Ok bp, w)"
    by (auto simp: Rename_def path_of_Ok dest!: andThen_Ok)
  from assms 1 2 obtain c where 3: "children w a oldName = Some c"
    by (auto simp: Rename_def split: option.splits)
  from assms 1 2 3 have 4: "c < length (nodes w)" "RemotePath (nodes w ! c) < length (paths w)"
    by (auto simp: Rename_def node_at_Ok path_at_Ok dest!: andThen_Ok)
  from 1 3 obtain m where 5: "RemoteNodes (nodes w ! a) = Some m" "m oldName = Some c"
    by (auto simp: children_def lookup_child_def path_of_Ok split: option.splits if_splits)
  let ?dest = "path_Join (Path bp) newName"
  from assms 1 2 3 4 have 6: "fh_Rename fh (paths w ! RemotePath (nodes w ! c)) ?dest = None"
    by (auto simp: Rename_def node_at_def path_at_def Let_def split: option.splits)
  let ?w1 = "w\<lparr>paths := (paths w)[RemotePath (nodes w ! c) :=
                   (paths w ! RemotePath (nodes w ! c))\<lparr>Path := ?dest\<rparr>]\<rparr>"
  let ?w2 = "?w1\<lparr>nodes := (nodes ?w1)[a := (nodes ?w1 ! a)\<lparr>RemoteNodes := Some (m(oldName := None))\<rparr>]\<rparr>"
  have a: "a < length (nodes w)" using 1 by (simp add: path_of_Ok)
  have d: "delete_child ?w1 a oldName = (Ok (), ?w2)"
    using a 5 by (simp add: delete_child_Ok)
  from assms 1 2 3 4 6 d have "set_child ?w2 b newName c = (Ok (), w')"
    by (simp add: Rename_def node_at_def path_at_def Let_def)
  then obtain mb where "RemoteNodes (nodes ?w2 ! b) = Some mb"
    "w' = ?w2\<lparr>nodes := (nodes ?w2)[b := (nodes ?w2 ! b)\<lparr>RemoteNodes := Some (mb(newName \<mapsto> c))\<rparr>]\<rparr>"
    by (auto simp: set_child_Ok)
  with a 2 4 5 show ?thesis
    unfolding path_of_Ok by (intro exI [of _ c] exI [of _ m] exI [of _ ?w1] exI [of _ ?w2] exI [of _ mb]) simp
qed

lemma Rename_succeeds:
  assumes a: "path_of w a = (Ok ap, w)" and b: "path_of w b = (Ok bp, w)"
    and c: "children w a oldName = Some c" and cp: "path_of w c = (Ok cp, w)"
    and mb: "RemoteNodes (nodes w ! b) \<noteq> None"
    and fh: "fh_Rename fh cp (path_Join (Path bp) newName) = None"
  shows "\<exists>w'. Rename fh path_Join w a oldName newName (RemoteNodePtr b) = (Ok (), w')"
proof -
  from a b cp have wf: "a < length (nodes w)" "b < length (nodes w)" "c < length (nodes w)"
    "RemotePath (nodes w ! c) < length (paths w)"
    "cp = paths w ! RemotePath (nodes w ! c)"
    by (simp_all add: path_of_Ok)
  let ?w1 = "w\<lparr>paths := (paths w)[RemotePath (nodes w ! c) := cp\<lparr>Path := path_Join (Path bp) newName\<rparr>]\<rparr>"
  obtain w2 where d: "delete_child ?w1 a oldName = (Ok (), w2)"
    and n2: "length (nodes w2) = length (nodes w)"
    and m2: "RemoteNodes (nodes w2 ! b) \<noteq> None"
    using wf mb by (cases "RemoteNodes (nodes w ! a)")
      (auto simp: delete_child_Ok nth_list_update)
  from m2 obtain m where m: "RemoteNodes (nodes w2 ! b) = Some m" by blast
  have s: "\<exists>w'. set_child w2 b newName c = (Ok (), w')"
    using wf n2 m by (simp add: set_child_Ok)
  have "Rename fh path_Join w a oldName newName (RemoteNodePtr b) = set_child w2 b newName c"
    using a b c wf fh d by (simp add: Rename_def node_at_def path_at_def Let_def)
  with s show ?thesis by simp
qed

lemma generateChildRemoteNode_own_path:
  assumes "generateChildRemoteNode path_Join w rn name isDir = (Ok child, w')"
    and "\<forall>i < length (nodes w). RemotePath (nodes w ! i) < length (paths w)"
  shows "child < length (nodes w') \<and>
         (\<forall>i < length (nodes w'). RemotePath (nodes w' ! i) < length (paths w') \<and>
            (i \<noteq> child \<longrightarrow> RemotePath (nodes w' ! i) \<noteq> RemotePath (nodes w' ! child)))"
proof -
  from assms(1) obtain rp where p: "path_of w rn = (Ok rp, w)"
    by (auto simp: generateChildRemoteNode_def path_of_Ok dest!: andThen_Ok)
  with assms(1) have c: "child = length (nodes w)"
    and w': "w' = w\<lparr>paths := paths w @
             [\<lparr>Hostname = Hostname rp, Port = Port rp, Path = path_Join (Path rp) name\<rparr>],
          nodes := nodes w @
             [\<lparr>IsDir = isDir, RemotePath = length (paths w), RemoteNodes = Some Map.empty\<rparr>]\<rparr>"
    by (simp_all add: generateChildRemoteNode_def)
  show ?thesis
    using assms(2) unfolding c w' by (auto simp: nth_append less_Suc_eq)
qed

text \<open>
  Claim C5. \<^verbatim>\<open>Rename\<close> moves the entry \<^verbatim>\<open>oldName\<close> of node \<^verbatim>\<open>a\<close>, which holds the node
  \<^verbatim>\<open>c\<close>, to the entry \<^verbatim>\<open>newName\<close> of node \<^verbatim>\<open>b\<close>. The move is to another entry, and the
  destination directory is not the moved node itself: \<^verbatim>\<open>generateChildRemoteNode\<close>
  gives every node a \<^verbatim>\<open>RemotePath\<close> object of its own, so \<^verbatim>\<open>b\<close> and \<^verbatim>\<open>c\<close> do not share
  theirs. The upcall succeeds when the three nodes have their paths, the child map of
  \<^verbatim>\<open>b\<close> is not the nil map and the file handler reports no error. After every
  successful upcall \<^verbatim>\<open>a\<close> has no entry for \<^verbatim>\<open>oldName\<close>, \<^verbatim>\<open>b\<close> maps \<^verbatim>\<open>newName\<close> to
  the same node \<^verbatim>\<open>c\<close>, and the path of \<^verbatim>\<open>c\<close> is \<^verbatim>\<open>path.Join\<close> of the path of \<^verbatim>\<open>b\<close>
  and \<^verbatim>\<open>newName\<close>.
\<close>

theorem Rename_reparents:
  assumes move: "a \<noteq> b \<or> oldName \<noteq> newName"
    and c: "children w a oldName = Some c"
    and own: "RemotePath (nodes w ! c) \<noteq> RemotePath (nodes w ! b)"
  shows "(path_of w a = (Ok ap, w) \<and> path_of w b = (Ok bp, w) \<and> path_of w c = (Ok cp, w) \<and>
          RemoteNodes (nodes w ! b) \<noteq> None \<and>
          fh_Rename fh cp (path_Join (Path bp) newName) = None \<longrightarrow>
            (\<exists>w'. Rename fh path_Join w a oldName newName (RemoteNodePtr b) = (Ok (), w'))) \<and>
         (\<forall>w'. Rename fh path_Join w a oldName newName (RemoteNodePtr b) = (Ok (), w') \<longrightarrow>
            children w' a oldName = None \<and>
            children w' b newName = Some c \<and>
            (\<exists>bp' cp'. path_of w' b = (Ok bp', w') \<and> path_of w' c = (Ok cp', w') \<and>
               Path cp' = path_Join (Path bp') newName))"
proof (intro conjI impI allI)
  assume "path_of w a = (Ok ap, w) \<and> path_of w b = (Ok bp, w) \<and> path_of w c = (Ok cp, w) \<and>
          RemoteNodes (nodes w ! b) \<noteq> None \<and>
          fh_Rename fh cp (path_Join (Path bp) newName) = None"
  then show "\<exists>w'. Rename fh path_Join w a oldName newName (RemoteNodePtr b) = (Ok (), w')"
    using Rename_succeeds [OF _ _ c] by blast
next
  fix w'
  assume ok: "Rename fh path_Join w a oldName newName (RemoteNodePtr b) = (Ok (), w')"
  from Rename_Ok [OF ok] obtain c0 m w1 w2 mb where
    r: "a < length (nodes w)" "b < length (nodes w)" "c0 < length (nodes w)"
       "RemotePath (nodes w ! b) < length (paths w)"
       "RemotePath (nodes w ! c0) < length (paths w)"
       "RemoteNodes (nodes w ! a) = Some m" "m oldName = Some c0"
    and w1: "w1 = w\<lparr>paths := (paths w)[RemotePath (nodes w ! c0) :=
                   (paths w ! RemotePath (nodes w ! c0))
                     \<lparr>Path := path_Join (Path (paths w ! RemotePath (nodes w ! b))) newName\<rparr>]\<rparr>"
    and w2: "w2 = w1\<lparr>nodes := (nodes w1)[a := (nodes w1 ! a)\<lparr>RemoteNodes := Some (m(oldName := None))\<rparr>]\<rparr>"
    and mb: "RemoteNodes (nodes w2 ! b) = Some mb"
    and w': "w' = w2\<lparr>nodes := (nodes w2)[b := (nodes w2 ! b)\<lparr>RemoteNodes := Some (mb(newName \<mapsto> c0))\<rparr>]\<rparr>"
    by blast
  from c r have c0: "c0 = c" by (simp add: children_def lookup_child_def)
  note r = r [unfolded c0] and w1 = w1 [unfolded c0] and w' = w' [unfolded c0]
  show "children w' a oldName = None"
    using move r mb by (auto simp: w' w2 w1 children_def lookup_child_def nth_list_update split: if_splits)
  show "children w' b newName = Some c"
    using r by (simp add: w' w2 w1 children_def lookup_child_def)
  have rpb: "RemotePath (nodes w' ! b) = RemotePath (nodes w ! b)"
    using r by (simp add: w' w2 w1 nth_list_update)
  have rpc: "RemotePath (nodes w' ! c) = RemotePath (nodes w ! c)"
    using r by (simp add: w' w2 w1 nth_list_update)
  have 1: "path_of w' b = (Ok (paths w' ! RemotePath (nodes w ! b)), w')"
    using r rpb by (simp add: path_of_Ok) (simp add: w' w2 w1)
  have 2: "path_of w' c = (Ok (paths w' ! RemotePath (nodes w ! c)), w')"
    using r rpc by (simp add: path_of_Ok) (simp add: w' w2 w1)
  have 3: "paths w' ! RemotePath (nodes w ! b) = paths w ! RemotePath (nodes w ! b)"
    using r own by (simp add: w' w2 w1)
  have 4: "Path (paths w' ! RemotePath (nodes w ! c))
      = path_Join (Path (paths w ! RemotePath (nodes w ! b))) newName"
    using r by (simp add: w' w2 w1)
  from 1 2 3 4 show "\<exists>bp' cp'. path_of w' b = (Ok bp', w') \<and> path_of w' c = (Ok cp', w') \<and>
               Path cp' = path_Join (Path bp') newName"
    by simp
qed

lemma node_eval:
  "node_at w r = (if r < length (nodes w) then (Ok (nodes w ! r), w) else (Panic NilDereference, w))"
  "path_at w r = (if r < length (paths w) then (Ok (paths w ! r), w) else (Panic NilDereference, w))"
  by (simp_all add: node_at_def path_at_def)

lemma Rename_example:
  "Rename example_FileHandler example_join example_world 0 ''x'' ''y'' (RemoteNodePtr 2)
   = (Ok (), example_renamed)"
  by (simp add: Rename_def path_of_def node_eval children_def lookup_child_def
      delete_child_def set_child_def example_world_def example_renamed_def
      example_FileHandler_def example_join_def)

theorem Rename_reparents_witness:
  "Rename example_FileHandler example_join example_world 0 ''x'' ''y'' (RemoteNodePtr 2)
     = (Ok (), example_renamed) \<and>
   children example_world 0 ''x'' = Some 1 \<and>
   children example_renamed 0 ''x'' = None \<and>
   children example_renamed 2 ''y'' = Some 1 \<and>
   (\<exists>bp' cp'. path_of example_renamed 2 = (Ok bp', example_renamed) \<and>
      path_of example_renamed 1 = (Ok cp', example_renamed) \<and>
      Path cp' = example_join (Path bp') ''y'' \<and> Path cp' = ''/data/b/y'')"
proof -
  let ?R = "Rename example_FileHandler example_join example_world 0 ''x'' ''y'' (RemoteNodePtr 2)"
  have move: "(0::nat) \<noteq> 2 \<or> ''x'' \<noteq> ''y''" by simp
  have c: "children example_world 0 ''x'' = Some 1"
    by (simp add: children_def lookup_child_def example_world_def)
  have own: "RemotePath (nodes example_world ! 1) \<noteq> RemotePath (nodes example_world ! 2)"
    by (simp add: example_world_def)
  have pre: "path_of example_world 0
                = (Ok \<lparr>Hostname = ''h1'', Port = 8080, Path = ''/data''\<rparr>, example_world) \<and>
             path_of example_world 2
                = (Ok \<lparr>Hostname = ''h1'', Port = 8080, Path = ''/data/b''\<rparr>, example_world) \<and>
             path_of example_world 1
                = (Ok \<lparr>Hostname = ''h1'', Port = 8080, Path = ''/data/x''\<rparr>, example_world) \<and>
             RemoteNodes (nodes example_world ! 2) \<noteq> None \<and>
             fh_Rename example_FileHandler \<lparr>Hostname = ''h1'', Port = 8080, Path = ''/data/x''\<rparr>
               (example_join (Path \<lparr>Hostname = ''h1'', Port = 8080, Path = ''/data/b''\<rparr>) ''y'') = None"
    by (simp add: path_of_Ok example_world_def example_FileHandler_def)
  note t = Rename_reparents [OF move c own, where
      ap = "\<lparr>Hostname = ''h1'', Port = 8080, Path = ''/data''\<rparr>" and
      bp = "\<lparr>Hostname = ''h1'', Port = 8080, Path = ''/data/b''\<rparr>" and
      cp = "\<lparr>Hostname = ''h1'', Port = 8080, Path = ''/data/x''\<rparr>" and
      fh = example_FileHandler and path_Join = example_join]
  from t pre obtain w' where ok: "?R = (Ok (), w')" by blast
  from t ok obtain bp' cp' where
    1: "children w' 0 ''x'' = None" and 2: "children w' 2 ''y'' = Some 1"
    and 3: "path_of w' 2 = (Ok bp', w')" and 4: "path_of w' 1 = (Ok cp', w')"
    and 5: "Path cp' = example_join (Path bp') ''y''"
    by blast
  from ok have w': "w' = example_renamed" by (simp add: Rename_example)
  from 4 have 6: "Path cp' = ''/data/b/y''"
    unfolding w' by (auto simp: path_of_Ok example_renamed_def)
  from ok c 1 2 3 4 5 6 show ?thesis unfolding w' by blast
qed

lemma world_eqI:
  "nodes w = nodes w' \<Longrightarrow> paths w = paths w' \<Longrightarrow> sent w = sent w' \<Longrightarrow> (w :: world) = w'"
  by simp

lemma generateChild_Ok:
  assumes "rn < length (nodes w)" and "RemotePath (nodes w ! rn) < length (paths w)"
  shows "generateChildRemoteNode path_Join w rn name isDir =
     (Ok (length (nodes w)),
      w\<lparr>paths := paths w @
             [\<lparr>Hostname = Hostname (paths w ! RemotePath (nodes w ! rn)),
               Port = Port (paths w ! RemotePath (nodes w ! rn)),
               Path = path_Join (Path (paths w ! RemotePath (nodes w ! rn))) name\<rparr>],
        nodes := nodes w @
             [\<lparr>IsDir = isDir, RemotePath = length (paths w), RemoteNodes = Some Map.empty\<rparr>]\<rparr>)"
  using assms by (simp add: generateChildRemoteNode_def path_of_def node_at_def path_at_def)

lemma populate_closed:
  assumes "rn < length (nodes w)" and "RemotePath (nodes w ! rn) < length (paths w)"
    and "RemoteNodes (nodes w ! rn) = Some m"
  shows "populate path_Join w rn files = (Ok (), repopulated path_Join w rn files m)"
  using assms
proof (induction files arbitrary: w m)
  case Nil
  have "(nodes w)[rn := (nodes w ! rn)\<lparr>RemoteNodes := Some m\<rparr>] = nodes w"
    using Nil by (simp add: list_update_same_conv)
  then show ?case by (simp add: repopulated_def stats_paths_def)
next
  case (Cons s files)
  let ?rp = "paths w ! RemotePath (nodes w ! rn)"
  let ?p = "\<lparr>Hostname = Hostname ?rp, Port = Port ?rp, Path = path_Join (Path ?rp) (Name s)\<rparr>"
  let ?n = "\<lparr>IsDir = Stat.IsDir s, RemotePath = length (paths w), RemoteNodes = Some Map.empty\<rparr>"
  let ?m = "m(Name s \<mapsto> length (nodes w))"
  let ?w1 = "w\<lparr>paths := paths w @ [?p], nodes := nodes w @ [?n]\<rparr>"
  let ?w2 = "?w1\<lparr>nodes := (nodes ?w1)[rn := (nodes ?w1 ! rn)\<lparr>RemoteNodes := Some ?m\<rparr>]\<rparr>"
  have g: "generateChildRemoteNode path_Join w rn (Name s) (Stat.IsDir s) = (Ok (length (nodes w)), ?w1)"
    using Cons.prems by (simp add: generateChild_Ok)
  have sc: "set_child ?w1 rn (Name s) (length (nodes w)) = (Ok (), ?w2)"
    using Cons.prems by (simp add: set_child_Ok nth_append)
  have n2: "nodes ?w2 = (nodes w)[rn := (nodes w ! rn)\<lparr>RemoteNodes := Some ?m\<rparr>] @ [?n]"
    using Cons.prems by (simp add: list_update_append nth_append)
  have a: "rn < length (nodes ?w2)" using Cons.prems by simp
  have b: "RemotePath (nodes ?w2 ! rn) < length (paths ?w2)"
    using Cons.prems by (simp add: nth_append)
  have c: "RemoteNodes (nodes ?w2 ! rn) = Some ?m"
    using Cons.prems by (simp add: nth_append)
  have "populate path_Join w rn (s # files) = populate path_Join ?w2 rn files"
    by (simp only: populate.simps g sc andThen_simps)
  also have "\<dots> = (Ok (), repopulated path_Join ?w2 rn files ?m)"
    by (rule Cons.IH [OF a b c])
  also have "repopulated path_Join ?w2 rn files ?m = repopulated path_Join w rn (s # files) m"
  proof (rule world_eqI)
    show "sent (repopulated path_Join ?w2 rn files ?m) = sent (repopulated path_Join w rn (s # files) m)"
      by (simp add: repopulated_def)
    show "paths (repopulated path_Join ?w2 rn files ?m) = paths (repopulated path_Join w rn (s # files) m)"
      using Cons.prems by (simp add: repopulated_def stats_paths_def nth_append)
    show "nodes (repopulated path_Join ?w2 rn files ?m) = nodes (repopulated path_Join w rn (s # files) m)"
      using Cons.prems unfolding repopulated_def
      by (simp add: list_update_append nth_append)
  qed
  finally show ?case .
qed

lemma stats_child_map_dom:
  "(stats_child_map base files m n \<noteq> None) = (n \<in> Name ` set files \<or> m n \<noteq> None)"
  by (induction files arbitrary: base m) auto

lemma stats_child_map_Some:
  "stats_child_map base files m n = Some c \<Longrightarrow>
   m n = Some c \<or> (\<exists>i < length files. c = base + i \<and> Name (files ! i) = n)"
proof (induction files arbitrary: base m)
  case Nil
  then show ?case by simp
next
  case (Cons s files)
  from Cons.prems have "stats_child_map (Suc base) files (m(Name s \<mapsto> base)) n = Some c"
    by (simp only: stats_child_map.simps)
  from Cons.IH [OF this]
  have "(m(Name s \<mapsto> base)) n = Some c \<or> (\<exists>i<length files. c = Suc base + i \<and> Name (files ! i) = n)" .
  then show ?case
  proof
    assume "(m(Name s \<mapsto> base)) n = Some c"
    then show ?thesis by (cases "n = Name s") auto
  next
    assume "\<exists>i<length files. c = Suc base + i \<and> Name (files ! i) = n"
    then obtain i where "i < length files" "c = Suc base + i" "Name (files ! i) = n" by blast
    then have "Suc i < length (s # files) \<and> c = base + Suc i \<and> Name ((s # files) ! Suc i) = n"
      by simp
    then show ?thesis by blast
  qed
qed

lemma stats_nodes_nth:
  "i < length files \<Longrightarrow>
   stats_nodes pbase files ! i =
     \<lparr>IsDir = Stat.IsDir (files ! i), RemotePath = pbase + i, RemoteNodes = Some Map.empty\<rparr>"
  by (induction files arbitrary: pbase i) (auto simp: nth_Cons split: nat.splits)

lemma length_stats_nodes [simp]: "length (stats_nodes pbase files) = length files"
  by (induction files arbitrary: pbase) auto

lemma Lookup_hit:
  assumes "path_of w rn = (Ok rp, w)" and "children w rn name = Some val"
  shows "Lookup oc agent path_Join w rn name = (Ok val, w)"
  using assms by (simp add: Lookup_def)

lemma make_children_Ok:
  "rn < length (nodes w) \<Longrightarrow>
   make_children w rn =
     (Ok (), w\<lparr>nodes := (nodes w)[rn := (nodes w ! rn)\<lparr>RemoteNodes := Some Map.empty\<rparr>]\<rparr>)"
  by (simp add: make_children_def node_at_def)

lemma Lookup_miss:
  assumes p: "path_of w rn = (Ok rp, w)" and miss: "children w rn name = None"
  shows "Lookup oc agent path_Join w rn name =
     andThen
       (case assert_Error (Data (agent (ReadDirAllRequest oc) (PtrRemotePath rp))) of
          None \<Rightarrow>
            andThen (assert_PtrDirInfo (Data (agent (ReadDirAllRequest oc) (PtrRemotePath rp))),
                     after_request w rn (ReadDirAllRequest oc, PtrRemotePath rp))
              (\<lambda>d w. populate path_Join w rn (Stats d))
        | Some respError \<Rightarrow> (Ok (), after_request w rn (ReadDirAllRequest oc, PtrRemotePath rp)))
       (\<lambda>u w. case children w rn name of
                 Some val \<Rightarrow> (Ok val, w)
               | None \<Rightarrow> (Failed ENOENT, w))"
proof -
  from p have rn: "rn < length (nodes w)" by (simp add: path_of_Ok)
  show ?thesis
    unfolding after_request_def using p miss rn
    by (simp add: Lookup_def sendRequest_def make_children_Ok)
qed

lemma after_request_wf:
  assumes "path_of w rn = (Ok rp, w)"
  shows "rn < length (nodes (after_request w rn req))"
    and "RemotePath (nodes (after_request w rn req) ! rn) < length (paths (after_request w rn req))"
    and "RemoteNodes (nodes (after_request w rn req) ! rn) = Some Map.empty"
    and "paths (after_request w rn req) ! RemotePath (nodes (after_request w rn req) ! rn) = rp"
    and "length (nodes (after_request w rn req)) = length (nodes w)"
    and "paths (after_request w rn req) = paths w"
    and "sent (after_request w rn req) = sent w @ [req]"
    and "paths w ! RemotePath (nodes (after_request w rn req) ! rn) = rp"
  using assms by (simp_all add: path_of_Ok after_request_def)

lemma Lookup_miss_DirInfo:
  assumes p: "path_of w rn = (Ok rp, w)" and miss: "children w rn name = None"
    and d: "Data (agent (ReadDirAllRequest oc) (PtrRemotePath rp)) = PtrDirInfo d"
  shows "Lookup oc agent path_Join w rn name =
     ((case children (repopulated path_Join (after_request w rn (ReadDirAllRequest oc, PtrRemotePath rp))
                        rn (Stats d) Map.empty) rn name of
         None \<Rightarrow> Failed ENOENT | Some val \<Rightarrow> Ok val),
      repopulated path_Join (after_request w rn (ReadDirAllRequest oc, PtrRemotePath rp))
        rn (Stats d) Map.empty)"
proof -
  note wf = after_request_wf [OF p, of "(ReadDirAllRequest oc, PtrRemotePath rp)"]
  show ?thesis
    unfolding Lookup_miss [OF p miss] d
    by (simp add: populate_closed [OF wf(1,2,3)] split: option.splits)
qed

lemma Lookup_miss_sent:
  assumes p: "path_of w rn = (Ok rp, w)" and miss: "children w rn name = None"
  shows "sent (snd (Lookup oc agent path_Join w rn name))
         = sent w @ [(ReadDirAllRequest oc, PtrRemotePath rp)]"
proof -
  let ?req = "(ReadDirAllRequest oc, PtrRemotePath rp)"
  let ?data = "Data (agent (ReadDirAllRequest oc) (PtrRemotePath rp))"
  note wf = after_request_wf [OF p, of ?req]
  have s: "sent (repopulated path_Join (after_request w rn ?req) rn files Map.empty) = sent w @ [?req]" for files
    by (simp add: repopulated_def wf(7))
  show ?thesis
  proof (cases "\<exists>d. ?data = PtrDirInfo d")
    case True
    then obtain d where "?data = PtrDirInfo d" by blast
    from Lookup_miss_DirInfo [where agent = agent and oc = oc and path_Join = path_Join, OF p miss this] s
    show ?thesis by simp
  next
    case False
    then show ?thesis
      unfolding Lookup_miss [OF p miss]
      by (cases ?data) (simp_all add: wf(7) split: option.splits)
  qed
qed

lemma repopulated_children:
  assumes p: "path_of w rn = (Ok rp, w)"
  shows "children (repopulated path_Join (after_request w rn req) rn files Map.empty) rn n
         = stats_child_map (length (nodes w)) files Map.empty n"
    and "i < length files \<Longrightarrow>
         nodes (repopulated path_Join (after_request w rn req) rn files Map.empty) !
           (length (nodes w) + i) =
           \<lparr>IsDir = Stat.IsDir (files ! i), RemotePath = length (paths w) + i,
            RemoteNodes = Some Map.empty\<rparr>"
    and "i < length files \<Longrightarrow>
         paths (repopulated path_Join (after_request w rn req) rn files Map.empty) !
           (length (paths w) + i) =
           \<lparr>Hostname = Hostname rp, Port = Port rp, Path = path_Join (Path rp) (Name (files ! i))\<rparr>"
proof -
  note wf = after_request_wf [OF p, of req]
  show "children (repopulated path_Join (after_request w rn req) rn files Map.empty) rn n
         = stats_child_map (length (nodes w)) files Map.empty n"
    using wf(1) by (simp add: repopulated_def children_def lookup_child_def nth_append wf(5))
  show "nodes (repopulated path_Join (after_request w rn req) rn files Map.empty) !
           (length (nodes w) + i) =
           \<lparr>IsDir = Stat.IsDir (files ! i), RemotePath = length (paths w) + i,
            RemoteNodes = Some Map.empty\<rparr>" if "i < length files"
    using that by (simp add: repopulated_def nth_append wf(5) wf(6) stats_nodes_nth)
  show "paths (repopulated path_Join (after_request w rn req) rn files Map.empty) !
           (length (paths w) + i) =
           \<lparr>Hostname = Hostname rp, Port = Port rp, Path = path_Join (Path rp) (Name (files ! i))\<rparr>"
    if "i < length files"
    using that by (simp add: repopulated_def nth_append wf(6) wf(8) stats_paths_def)
qed

text \<open>
  Claim C6. \<^verbatim>\<open>Lookup(name)\<close> on a node (with a valid path): if the child map contains
  the name, the mapped node is returned, nothing is sent and nothing changes. On a miss
  exactly one \<^verbatim>\<open>ReadDirAllRequest\<close> with the path of the node is sent. When the response
  carries stats, the child map is built anew from them (its names are the names of the
  stats, each mapped to a new node with the joined path and the directory flag of its
  stat), the name is looked up in the new map, and \<^verbatim>\<open>ENOENT\<close> is returned if it is
  still absent.
\<close>

theorem Lookup_child_map_then_ReadDirAll:
  assumes p: "path_of w rn = (Ok rp, w)"
  shows "(\<forall>val. children w rn name = Some val \<longrightarrow>
            Lookup oc agent path_Join w rn name = (Ok val, w)) \<and>
         (children w rn name = None \<longrightarrow>
            sent (snd (Lookup oc agent path_Join w rn name))
              = sent w @ [(ReadDirAllRequest oc, PtrRemotePath rp)]) \<and>
         (\<forall>d. children w rn name = None \<and>
              Data (agent (ReadDirAllRequest oc) (PtrRemotePath rp)) = PtrDirInfo d \<longrightarrow>
            (\<exists>w'. Lookup oc agent path_Join w rn name =
                    ((case children w' rn name of None \<Rightarrow> Failed ENOENT | Some val \<Rightarrow> Ok val), w') \<and>
                  (\<forall>n. (children w' rn n \<noteq> None) = (n \<in> Name ` set (Stats d))) \<and>
                  (\<forall>n c. children w' rn n = Some c \<longrightarrow>
                     (\<exists>i < length (Stats d).
                        Name (Stats d ! i) = n \<and> c = length (nodes w) + i \<and>
                        nodes w' ! c =
                          \<lparr>IsDir = Stat.IsDir (Stats d ! i), RemotePath = length (paths w) + i,
                           RemoteNodes = Some Map.empty\<rparr> \<and>
                        paths w' ! (length (paths w) + i) =
                          \<lparr>Hostname = Hostname rp, Port = Port rp,
                           Path = path_Join (Path rp) n\<rparr>))))"
proof (intro conjI allI impI)
  fix val assume "children w rn name = Some val"
  with p show "Lookup oc agent path_Join w rn name = (Ok val, w)" by (rule Lookup_hit)
next
  assume "children w rn name = None"
  with p show "sent (snd (Lookup oc agent path_Join w rn name))
              = sent w @ [(ReadDirAllRequest oc, PtrRemotePath rp)]"
    by (rule Lookup_miss_sent)
next
  fix d
  assume a: "children w rn name = None \<and>
             Data (agent (ReadDirAllRequest oc) (PtrRemotePath rp)) = PtrDirInfo d"
  let ?w' = "repopulated path_Join (after_request w rn (ReadDirAllRequest oc, PtrRemotePath rp))
               rn (Stats d) Map.empty"
  note rc = repopulated_children [where path_Join = path_Join
      and req = "(ReadDirAllRequest oc, PtrRemotePath rp)" and files = "Stats d", OF p]
  have 1: "Lookup oc agent path_Join w rn name =
             ((case children ?w' rn name of None \<Rightarrow> Failed ENOENT | Some val \<Rightarrow> Ok val), ?w')"
    using a by (intro Lookup_miss_DirInfo [OF p]) simp_all
  have 2: "(children ?w' rn n \<noteq> None) = (n \<in> Name ` set (Stats d))" for n
    unfolding rc(1) stats_child_map_dom by simp
  have 3: "\<exists>i < length (Stats d).
              Name (Stats d ! i) = n \<and> c = length (nodes w) + i \<and>
              nodes ?w' ! c =
                \<lparr>IsDir = Stat.IsDir (Stats d ! i), RemotePath = length (paths w) + i,
                 RemoteNodes = Some Map.empty\<rparr> \<and>
              paths ?w' ! (length (paths w) + i) =
                \<lparr>Hostname = Hostname rp, Port = Port rp, Path = path_Join (Path rp) n\<rparr>"
    if "children ?w' rn n = Some c" for n c
  proof -
    from that have "stats_child_map (length (nodes w)) (Stats d) Map.empty n = Some c"
      by (simp add: rc(1))
    from stats_child_map_Some [OF this] obtain i where
      i: "i < length (Stats d)" "c = length (nodes w) + i" "Name (Stats d ! i) = n"
      by auto
    from rc(2) [OF i(1)] rc(3) [OF i(1)] i show ?thesis by auto
  qed
  from 1 2 3 show "\<exists>w'. Lookup oc agent path_Join w rn name =
                    ((case children w' rn name of None \<Rightarrow> Failed ENOENT | Some val \<Rightarrow> Ok val), w') \<and>
                  (\<forall>n. (children w' rn n \<noteq> None) = (n \<in> Name ` set (Stats d))) \<and>
                  (\<forall>n c. children w' rn n = Some c \<longrightarrow>
                     (\<exists>i < length (Stats d).
                        Name (Stats d ! i) = n \<and> c = length (nodes w) + i \<and>
                        nodes w' ! c =
                          \<lparr>IsDir = Stat.IsDir (Stats d ! i), RemotePath = length (paths w) + i,
                           RemoteNodes = Some Map.empty\<rparr> \<and>
                        paths w' ! (length (paths w) + i) =
                          \<lparr>Hostname = Hostname rp, Port = Port rp,
                           Path = path_Join (Path rp) n\<rparr>))"
    by blast
qed

lemma Create_result:
  assumes p: "path_of w rn = (Ok rp, w)"
  shows "Create fh path_Join w rn n =
     (case fh_Create fh rp n of
        (fd, Some err) \<Rightarrow> (Failed err, w)
      | (fd, None) \<Rightarrow>
          let w1 = w\<lparr>paths := paths w @
                     [\<lparr>Hostname = Hostname rp, Port = Port rp, Path = path_Join (Path rp) n\<rparr>],
                   nodes := nodes w @
                     [\<lparr>IsDir = False, RemotePath = length (paths w), RemoteNodes = Some Map.empty\<rparr>]\<rparr>
          in case RemoteNodes (nodes w ! rn) of
               None \<Rightarrow> (Panic NilMapAssignment, w1)
             | Some m \<Rightarrow>
                 (Ok (length (nodes w), \<lparr>RemoteNode = length (nodes w), FileDescriptor = fd\<rparr>),
                  w1\<lparr>nodes := (nodes w1)[rn := (nodes w ! rn)
                         \<lparr>RemoteNodes := Some (m(n \<mapsto> length (nodes w)))\<rparr>]\<rparr>))"
proof -
  from p have wf: "rn < length (nodes w)" "RemotePath (nodes w ! rn) < length (paths w)"
    and rp: "paths w ! RemotePath (nodes w ! rn) = rp"
    by (simp_all add: path_of_Ok)
  show ?thesis
    using p wf
    by (simp add: Create_def generateChild_Ok [OF wf] rp set_child_def node_at_def nth_append
        Let_def split: prod.splits option.splits)
qed

lemma Mkdir_result:
  assumes p: "path_of w rn = (Ok rp, w)"
  shows "Mkdir fh path_Join w rn n =
     (case fh_Mkdir fh rp n of
        Some err \<Rightarrow> (Failed err, w)
      | None \<Rightarrow>
          let w1 = w\<lparr>paths := paths w @
                     [\<lparr>Hostname = Hostname rp, Port = Port rp, Path = path_Join (Path rp) n\<rparr>],
                   nodes := nodes w @
                     [\<lparr>IsDir = True, RemotePath = length (paths w), RemoteNodes = Some Map.empty\<rparr>]\<rparr>
          in case RemoteNodes (nodes w ! rn) of
               None \<Rightarrow> (Panic NilMapAssignment, w1)
             | Some m \<Rightarrow>
                 (Ok (length (nodes w)),
                  w1\<lparr>nodes := (nodes w1)[rn := (nodes w ! rn)
                         \<lparr>RemoteNodes := Some (m(n \<mapsto> length (nodes w)))\<rparr>]\<rparr>))"
proof -
  from p have wf: "rn < length (nodes w)" "RemotePath (nodes w ! rn) < length (paths w)"
    and rp: "paths w ! RemotePath (nodes w ! rn) = rp"
    by (simp_all add: path_of_Ok)
  show ?thesis
    using p wf
    by (simp add: Mkdir_def generateChild_Ok [OF wf] rp set_child_def node_at_def nth_append
        Let_def split: prod.splits option.splits)
qed

lemma Remove_result:
  assumes p: "path_of w rn = (Ok rp, w)"
  shows "Remove fh w rn n =
     (case fh_Remove fh rp n of
        Some err \<Rightarrow> (Failed err, w)
      | None \<Rightarrow>
          (Ok (),
           case RemoteNodes (nodes w ! rn) of
             None \<Rightarrow> w
           | Some m \<Rightarrow> w\<lparr>nodes := (nodes w)[rn := (nodes w ! rn)\<lparr>RemoteNodes := Some (m(n := None))\<rparr>]\<rparr>))"
proof -
  from p have wf: "rn < length (nodes w)" by (simp add: path_of_Ok)
  show ?thesis
    using p wf
    by (simp add: Remove_def delete_child_def node_at_def split: option.splits)
qed

lemma Create_Ok:
  assumes p: "path_of w rn = (Ok rp, w)"
    and ok: "Create fh path_Join w rn n = (Ok (newRn, handle), w1)"
  shows "path_of w1 rn = (Ok rp, w1)" and "children w1 rn n = Some newRn"
    and "\<not> IsDir (nodes w1 ! newRn)"
    and "path_of w1 newRn = (Ok (rp\<lparr>Path := path_Join (Path rp) n\<rparr>), w1)"
proof -
  from p have wf: "rn < length (nodes w)" "RemotePath (nodes w ! rn) < length (paths w)"
    and rp: "paths w ! RemotePath (nodes w ! rn) = rp"
    by (simp_all add: path_of_Ok)
  from ok obtain fd m where "fh_Create fh rp n = (fd, None)"
    and m: "RemoteNodes (nodes w ! rn) = Some m"
    and newRn: "newRn = length (nodes w)"
    and w1: "w1 = w\<lparr>paths := paths w @
                     [\<lparr>Hostname = Hostname rp, Port = Port rp, Path = path_Join (Path rp) n\<rparr>],
                   nodes := (nodes w @
                     [\<lparr>IsDir = False, RemotePath = length (paths w), RemoteNodes = Some Map.empty\<rparr>])
                     [rn := (nodes w ! rn)\<lparr>RemoteNodes := Some (m(n \<mapsto> length (nodes w)))\<rparr>]\<rparr>"
    unfolding Create_result [OF p]
    by (auto simp: Let_def split: prod.splits option.splits)
  show "path_of w1 rn = (Ok rp, w1)"
    using wf rp by (simp add: path_of_Ok w1 nth_append)
  show "children w1 rn n = Some newRn"
    using wf by (simp add: children_def lookup_child_def w1 newRn)
  show "\<not> IsDir (nodes w1 ! newRn)"
    using wf by (simp add: w1 newRn nth_list_update)
  show "path_of w1 newRn = (Ok (rp\<lparr>Path := path_Join (Path rp) n\<rparr>), w1)"
    using wf by (simp add: path_of_Ok w1 newRn nth_list_update)
qed

lemma Mkdir_Ok:
  assumes p: "path_of w rn = (Ok rp, w)"
    and ok: "Mkdir fh path_Join w rn n = (Ok newRn, w1)"
  shows "path_of w1 rn = (Ok rp, w1)" and "children w1 rn n = Some newRn"
    and "IsDir (nodes w1 ! newRn)"
    and "path_of w1 newRn = (Ok (rp\<lparr>Path := path_Join (Path rp) n\<rparr>), w1)"
proof -
  from p have wf: "rn < length (nodes w)" "RemotePath (nodes w ! rn) < length (paths w)"
    and rp: "paths w ! RemotePath (nodes w ! rn) = rp"
    by (simp_all add: path_of_Ok)
  from ok obtain m where "fh_Mkdir fh rp n = None"
    and m: "RemoteNodes (nodes w ! rn) = Some m"
    and newRn: "newRn = length (nodes w)"
    and w1: "w1 = w\<lparr>paths := paths w @
                     [\<lparr>Hostname = Hostname rp, Port = Port rp, Path = path_Join (Path rp) n\<rparr>],
                   nodes := (nodes w @
                     [\<lparr>IsDir = True, RemotePath = length (paths w), RemoteNodes = Some Map.empty\<rparr>])
                     [rn := (nodes w ! rn)\<lparr>RemoteNodes := Some (m(n \<mapsto> length (nodes w)))\<rparr>]\<rparr>"
    unfolding Mkdir_result [OF p]
    by (auto simp: Let_def split: option.splits)
  show "path_of w1 rn = (Ok rp, w1)"
    using wf rp by (simp add: path_of_Ok w1 nth_append)
  show "children w1 rn n = Some newRn"
    using wf by (simp add: children_def lookup_child_def w1 newRn)
  show "IsDir (nodes w1 ! newRn)"
    using wf by (simp add: w1 newRn nth_list_update)
  show "path_of w1 newRn = (Ok (rp\<lparr>Path := path_Join (Path rp) n\<rparr>), w1)"
    using wf by (simp add: path_of_Ok w1 newRn nth_list_update)
qed

lemma Remove_Ok:
  assumes p: "path_of w rn = (Ok rp, w)"
    and ok: "Remove fh w rn n = (Ok (), w1)"
  shows "path_of w1 rn = (Ok rp, w1)" and "children w1 rn n = None"
    and "sent w1 = sent w"
proof -
  from p have wf: "rn < length (nodes w)" "RemotePath (nodes w ! rn) < length (paths w)"
    and rp: "paths w ! RemotePath (nodes w ! rn) = rp"
    by (simp_all add: path_of_Ok)
  from ok have w1: "w1 = (case RemoteNodes (nodes w ! rn) of
             None \<Rightarrow> w
           | Some m \<Rightarrow> w\<lparr>nodes := (nodes w)[rn := (nodes w ! rn)\<lparr>RemoteNodes := Some (m(n := None))\<rparr>]\<rparr>)"
    unfolding Remove_result [OF p] by (auto split: option.splits)
  show "path_of w1 rn = (Ok rp, w1)"
    using wf rp by (auto simp: path_of_Ok w1 split: option.splits)
  show "children w1 rn n = None"
    using wf by (auto simp: children_def lookup_child_def w1 split: option.splits)
  show "sent w1 = sent w"
    by (auto simp: w1 split: option.splits)
qed

text \<open>
  Claim C7. On a node with its path: \<^verbatim>\<open>Create\<close> and \<^verbatim>\<open>Mkdir\<close> of a name succeed when
  the file handler reports no error and the child map of the node is not the nil map.
  After every successful \<^verbatim>\<open>Create\<close> or \<^verbatim>\<open>Mkdir\<close> the child map holds the new node
  under the name (a file for \<^verbatim>\<open>Create\<close>, a directory for \<^verbatim>\<open>Mkdir\<close>, with the joined
  path), and \<^verbatim>\<open>Lookup\<close> of the name returns this node, sends nothing and changes
  nothing. \<^verbatim>\<open>Remove\<close> of a name succeeds when the file handler reports no error. After
  every successful \<^verbatim>\<open>Remove\<close> the child map has no entry for the name, so \<^verbatim>\<open>Lookup\<close> of
  the name sends one \<^verbatim>\<open>ReadDirAllRequest\<close>, and it returns \<^verbatim>\<open>ENOENT\<close> when the stats of
  the response do not list the name.
\<close>

theorem child_map_coherence:
  assumes p: "path_of w rn = (Ok rp, w)"
  shows
    "(RemoteNodes (nodes w ! rn) \<noteq> None \<and> snd (fh_Create fh rp n) = None \<longrightarrow>
        (\<exists>newRn handle w1. Create fh path_Join w rn n = (Ok (newRn, handle), w1))) \<and>
     (\<forall>newRn handle w1. Create fh path_Join w rn n = (Ok (newRn, handle), w1) \<longrightarrow>
        children w1 rn n = Some newRn \<and> \<not> IsDir (nodes w1 ! newRn) \<and>
        path_of w1 newRn = (Ok (rp\<lparr>Path := path_Join (Path rp) n\<rparr>), w1) \<and>
        Lookup oc agent path_Join w1 rn n = (Ok newRn, w1)) \<and>
     (RemoteNodes (nodes w ! rn) \<noteq> None \<and> fh_Mkdir fh rp n = None \<longrightarrow>
        (\<exists>newRn w1. Mkdir fh path_Join w rn n = (Ok newRn, w1))) \<and>
     (\<forall>newRn w1. Mkdir fh path_Join w rn n = (Ok newRn, w1) \<longrightarrow>
        children w1 rn n = Some newRn \<and> IsDir (nodes w1 ! newRn) \<and>
        path_of w1 newRn = (Ok (rp\<lparr>Path := path_Join (Path rp) n\<rparr>), w1) \<and>
        Lookup oc agent path_Join w1 rn n = (Ok newRn, w1)) \<and>
     (fh_Remove fh rp n = None \<longrightarrow> (\<exists>w1. Remove fh w rn n = (Ok (), w1))) \<and>
     (\<forall>w1. Remove fh w rn n = (Ok (), w1) \<longrightarrow>
        children w1 rn n = None \<and>
        sent (snd (Lookup oc agent path_Join w1 rn n))
          = sent w1 @ [(ReadDirAllRequest oc, PtrRemotePath rp)] \<and>
        (\<forall>d. Data (agent (ReadDirAllRequest oc) (PtrRemotePath rp)) = PtrDirInfo d \<and>
             n \<notin> Name ` set (Stats d) \<longrightarrow>
             fst (Lookup oc agent path_Join w1 rn n) = Failed ENOENT))"
proof (intro conjI impI allI)
  assume "RemoteNodes (nodes w ! rn) \<noteq> None \<and> snd (fh_Create fh rp n) = None"
  then show "\<exists>newRn handle w1. Create fh path_Join w rn n = (Ok (newRn, handle), w1)"
    unfolding Create_result [OF p]
    by (cases "fh_Create fh rp n") (auto simp: Let_def)
next
  assume "RemoteNodes (nodes w ! rn) \<noteq> None \<and> fh_Mkdir fh rp n = None"
  then show "\<exists>newRn w1. Mkdir fh path_Join w rn n = (Ok newRn, w1)"
    unfolding Mkdir_result [OF p] by (auto simp: Let_def)
next
  assume "fh_Remove fh rp n = None"
  then show "\<exists>w1. Remove fh w rn n = (Ok (), w1)"
    unfolding Remove_result [OF p] by simp
next
  fix newRn handle w1
  assume ok: "Create fh path_Join w rn n = (Ok (newRn, handle), w1)"
  note c = Create_Ok [OF p ok]
  show "children w1 rn n = Some newRn" by (rule c(2))
  show "\<not> IsDir (nodes w1 ! newRn)" by (rule c(3))
  show "path_of w1 newRn = (Ok (rp\<lparr>Path := path_Join (Path rp) n\<rparr>), w1)" by (rule c(4))
  show "Lookup oc agent path_Join w1 rn n = (Ok newRn, w1)"
    using c(1) c(2) by (rule Lookup_hit)
next
  fix newRn w1
  assume ok: "Mkdir fh path_Join w rn n = (Ok newRn, w1)"
  note c = Mkdir_Ok [OF p ok]
  show "children w1 rn n = Some newRn" by (rule c(2))
  show "IsDir (nodes w1 ! newRn)" by (rule c(3))
  show "path_of w1 newRn = (Ok (rp\<lparr>Path := path_Join (Path rp) n\<rparr>), w1)" by (rule c(4))
  show "Lookup oc agent path_Join w1 rn n = (Ok newRn, w1)"
    using c(1) c(2) by (rule Lookup_hit)
next
  fix w1
  assume ok: "Remove fh w rn n = (Ok (), w1)"
  note c = Remove_Ok [OF p ok]
  show "children w1 rn n = None" by (rule c(2))
  show "sent (snd (Lookup oc agent path_Join w1 rn n))
          = sent w1 @ [(ReadDirAllRequest oc, PtrRemotePath rp)]"
    using c(1) c(2) by (rule Lookup_miss_sent)
  fix d
  assume a: "Data (agent (ReadDirAllRequest oc) (PtrRemotePath rp)) = PtrDirInfo d \<and>
             n \<notin> Name ` set (Stats d)"
  let ?w' = "repopulated path_Join (after_request w1 rn (ReadDirAllRequest oc, PtrRemotePath rp))
               rn (Stats d) Map.empty"
  have "children ?w' rn n = None"
    using a repopulated_children(1) [OF c(1), of path_Join "(ReadDirAllRequest oc, PtrRemotePath rp)" "Stats d" n]
      stats_child_map_dom [of "length (nodes w1)" "Stats d" Map.empty n]
    by simp
  then show "fst (Lookup oc agent path_Join w1 rn n) = Failed ENOENT"
    using Lookup_miss_DirInfo [where agent = agent and oc = oc and path_Join = path_Join, OF c(1) c(2)] a
    by simp
qed

lemma path_of_example_world:
  "path_of example_world 0 = (Ok \<lparr>Hostname = ''h1'', Port = 8080, Path = ''/data''\<rparr>, example_world)"
  "path_of example_world 2 = (Ok \<lparr>Hostname = ''h1'', Port = 8080, Path = ''/data/b''\<rparr>, example_world)"
  by (simp_all add: path_of_Ok example_world_def)

lemma children_example_world:
  "children example_world 0 ''x'' = Some 1"
  "children example_world 2 ''y'' = None"
  "children example_world 2 ''z'' = None"
  by (simp_all add: children_def lookup_child_def example_world_def)

theorem Lookup_child_map_then_ReadDirAll_witness:
  "Lookup example_opcodes example_agent_dir example_join example_world 0 ''x''
     = (Ok 1, example_world) \<and>
   fst (Lookup example_opcodes example_agent_dir example_join example_world 2 ''y'') = Ok 3 \<and>
   sent (snd (Lookup example_opcodes example_agent_dir example_join example_world 2 ''y''))
     = [(2, PtrRemotePath \<lparr>Hostname = ''h1'', Port = 8080, Path = ''/data/b''\<rparr>)] \<and>
   fst (Lookup example_opcodes example_agent_dir example_join example_world 2 ''z'')
     = Failed ENOENT"
proof -
  let ?L = "Lookup example_opcodes example_agent_dir example_join example_world"
  let ?rp = "\<lparr>Hostname = ''h1'', Port = 8080, Path = ''/data/b''\<rparr>"
  have d: "Data (example_agent_dir (ReadDirAllRequest example_opcodes) (PtrRemotePath ?rp))
      = PtrDirInfo \<lparr>Stats = [example_stat]\<rparr>"
    by (simp add: example_agent_dir_def)
  have names: "Name ` set (Stats \<lparr>Stats = [example_stat]\<rparr>) = {''y''}"
    by (simp add: example_stat_def)
  have n0: "length (nodes example_world) = 3" by (simp add: example_world_def)
  have s0: "sent example_world = []" by (simp add: example_world_def)
  have rd: "ReadDirAllRequest example_opcodes = 2" by (simp add: example_opcodes_def)
  note hit = Lookup_child_map_then_ReadDirAll
    [OF path_of_example_world(1), of "''x''" example_opcodes example_agent_dir example_join]
  note y = Lookup_child_map_then_ReadDirAll
    [OF path_of_example_world(2), of "''y''" example_opcodes example_agent_dir example_join]
  note z = Lookup_child_map_then_ReadDirAll
    [OF path_of_example_world(2), of "''z''" example_opcodes example_agent_dir example_join]
  from hit children_example_world(1) have 1: "?L 0 ''x'' = (Ok 1, example_world)" by blast
  from y children_example_world(2) d obtain w' where
    ly: "?L 2 ''y'' = ((case children w' 2 ''y'' of None \<Rightarrow> Failed ENOENT | Some val \<Rightarrow> Ok val), w')"
    and dom: "\<forall>n. (children w' 2 n \<noteq> None) = (n \<in> Name ` set (Stats \<lparr>Stats = [example_stat]\<rparr>))"
    and ch: "\<forall>n c. children w' 2 n = Some c \<longrightarrow>
               (\<exists>i < length (Stats \<lparr>Stats = [example_stat]\<rparr>).
                  Name (Stats \<lparr>Stats = [example_stat]\<rparr> ! i) = n \<and> c = length (nodes example_world) + i \<and>
                  nodes w' ! c =
                    \<lparr>IsDir = Stat.IsDir (Stats \<lparr>Stats = [example_stat]\<rparr> ! i),
                     RemotePath = length (paths example_world) + i, RemoteNodes = Some Map.empty\<rparr> \<and>
                  paths w' ! (length (paths example_world) + i) =
                    \<lparr>Hostname = Hostname ?rp, Port = Port ?rp, Path = example_join (Path ?rp) n\<rparr>)"
    by blast
  from dom have "(children w' 2 ''y'' \<noteq> None) = (''y'' \<in> Name ` set (Stats \<lparr>Stats = [example_stat]\<rparr>))"
    by (rule spec)
  then have "children w' 2 ''y'' \<noteq> None" unfolding names by simp
  then obtain c where c: "children w' 2 ''y'' = Some c" by blast
  from ch c obtain i where "i < length (Stats \<lparr>Stats = [example_stat]\<rparr>)"
    and "c = length (nodes example_world) + i" by blast
  then have "c = 3" by (simp add: n0)
  with ly c have 2: "fst (?L 2 ''y'') = Ok 3" by simp
  from y children_example_world(2) have 3: "sent (snd (?L 2 ''y'')) = [(2, PtrRemotePath ?rp)]"
    by (simp add: s0 rd)
  from z children_example_world(3) d obtain w'' where
    lz: "?L 2 ''z'' = ((case children w'' 2 ''z'' of None \<Rightarrow> Failed ENOENT | Some val \<Rightarrow> Ok val), w'')"
    and domz: "\<forall>n. (children w'' 2 n \<noteq> None) = (n \<in> Name ` set (Stats \<lparr>Stats = [example_stat]\<rparr>))"
    by blast
  from domz have "(children w'' 2 ''z'' \<noteq> None) = (''z'' \<in> Name ` set (Stats \<lparr>Stats = [example_stat]\<rparr>))"
    by (rule spec)
  then have "children w'' 2 ''z'' = None" unfolding names by simp
  with lz have 4: "fst (?L 2 ''z'') = Failed ENOENT" by simp
  from 1 2 3 4 show ?thesis by simp
qed

lemma Create_example:
  "Create example_FileHandler example_join example_world 2 ''new''
   = (Ok (3, \<lparr>RemoteNode = 3, FileDescriptor = 3\<rparr>), example_created)"
  by (simp add: Create_def generateChildRemoteNode_def path_of_def node_eval set_child_def
      example_world_def example_created_def example_FileHandler_def example_join_def
      numeral_3_eq_3)

lemma Remove_example:
  "Remove example_FileHandler example_world 0 ''x'' = (Ok (), example_removed)"
  by (simp add: Remove_def path_of_def node_eval delete_child_def
      example_world_def example_removed_def example_FileHandler_def)

theorem child_map_coherence_witness:
  "Create example_FileHandler example_join example_world 2 ''new''
     = (Ok (3, \<lparr>RemoteNode = 3, FileDescriptor = 3\<rparr>), example_created) \<and>
   children example_created 2 ''new'' = Some 3 \<and>
   Lookup example_opcodes example_agent_dir example_join example_created 2 ''new''
     = (Ok 3, example_created) \<and>
   (\<exists>newRn w1.
      Mkdir example_FileHandler example_join example_world 2 ''dir'' = (Ok newRn, w1) \<and>
      children w1 2 ''dir'' = Some newRn \<and> IsDir (nodes w1 ! newRn) \<and>
      Lookup example_opcodes example_agent_dir example_join w1 2 ''dir'' = (Ok newRn, w1)) \<and>
   Remove example_FileHandler example_world 0 ''x'' = (Ok (), example_removed) \<and>
   children example_removed 0 ''x'' = None \<and>
   sent (snd (Lookup example_opcodes example_agent_dir example_join example_removed 0 ''x''))
     = [(2, PtrRemotePath \<lparr>Hostname = ''h1'', Port = 8080, Path = ''/data''\<rparr>)] \<and>
   fst (Lookup example_opcodes example_agent_dir example_join example_removed 0 ''x'')
     = Failed ENOENT"
proof -
  let ?rp0 = "\<lparr>Hostname = ''h1'', Port = 8080, Path = ''/data''\<rparr>"
  let ?rp2 = "\<lparr>Hostname = ''h1'', Port = 8080, Path = ''/data/b''\<rparr>"
  note new = child_map_coherence [OF path_of_example_world(2), where fh = example_FileHandler
      and path_Join = example_join and oc = example_opcodes and agent = example_agent_dir
      and n = "''new''"]
  note dir = child_map_coherence [OF path_of_example_world(2), where fh = example_FileHandler
      and path_Join = example_join and oc = example_opcodes and agent = example_agent_dir
      and n = "''dir''"]
  note x = child_map_coherence [OF path_of_example_world(1), where fh = example_FileHandler
      and path_Join = example_join and oc = example_opcodes and agent = example_agent_dir
      and n = "''x''"]
  have m2: "RemoteNodes (nodes example_world ! 2) \<noteq> None" by (simp add: example_world_def)
  have cr: "snd (fh_Create example_FileHandler ?rp2 ''new'') = None"
    by (simp add: example_FileHandler_def)
  have mk: "fh_Mkdir example_FileHandler ?rp2 ''dir'' = None"
    by (simp add: example_FileHandler_def)
  have rm: "fh_Remove example_FileHandler ?rp0 ''x'' = None"
    by (simp add: example_FileHandler_def)
  from new m2 cr obtain newRn handle w1 where
    c: "Create example_FileHandler example_join example_world 2 ''new'' = (Ok (newRn, handle), w1)"
    by blast
  from new c have c1: "children w1 2 ''new'' = Some newRn"
    and c2: "Lookup example_opcodes example_agent_dir example_join w1 2 ''new'' = (Ok newRn, w1)"
    by blast+
  from c have ce: "newRn = 3" "handle = \<lparr>RemoteNode = 3, FileDescriptor = 3\<rparr>" "w1 = example_created"
    by (simp_all add: Create_example)
  from dir m2 mk obtain dirRn w2 where
    m: "Mkdir example_FileHandler example_join example_world 2 ''dir'' = (Ok dirRn, w2)"
    by blast
  from dir m have m1: "children w2 2 ''dir'' = Some dirRn" and m3: "IsDir (nodes w2 ! dirRn)"
    and m4: "Lookup example_opcodes example_agent_dir example_join w2 2 ''dir'' = (Ok dirRn, w2)"
    by blast+
  from x rm obtain w3 where r: "Remove example_FileHandler example_world 0 ''x'' = (Ok (), w3)"
    by blast
  from x r have r1: "children w3 0 ''x'' = None"
    and r2: "sent (snd (Lookup example_opcodes example_agent_dir example_join w3 0 ''x''))
          = sent w3 @ [(ReadDirAllRequest example_opcodes, PtrRemotePath ?rp0)]"
    and r3: "\<forall>d. Data (example_agent_dir (ReadDirAllRequest example_opcodes) (PtrRemotePath ?rp0))
                 = PtrDirInfo d \<and> ''x'' \<notin> Name ` set (Stats d) \<longrightarrow>
             fst (Lookup example_opcodes example_agent_dir example_join w3 0 ''x'') = Failed ENOENT"
    by blast+
  from r have re: "w3 = example_removed" by (simp add: Remove_example)
  have d: "Data (example_agent_dir (ReadDirAllRequest example_opcodes) (PtrRemotePath ?rp0))
      = PtrDirInfo \<lparr>Stats = [example_stat]\<rparr>"
    by (simp add: example_agent_dir_def)
  have "''x'' \<notin> Name ` set (Stats \<lparr>Stats = [example_stat]\<rparr>)" by (simp add: example_stat_def)
  with r3 d have r4:
    "fst (Lookup example_opcodes example_agent_dir example_join w3 0 ''x'') = Failed ENOENT"
    by blast
  from r2 have r5:
    "sent (snd (Lookup example_opcodes example_agent_dir example_join w3 0 ''x''))
     = [(2, PtrRemotePath ?rp0)]"
    by (simp add: re example_removed_def example_opcodes_def)
  from c c1 c2 m m1 m3 m4 r r1 r4 r5 show ?thesis unfolding ce re by blast
qed

section \<open>Properties of the keepalive\<close>

lemma ping_connections_length [simp]:
  "length (fst (ping_connections ok h k conns)) = length conns"
  by (induction conns arbitrary: k) (simp_all add: split_def Let_def)

lemma ping_connections_nth:
  "i < length conns \<Longrightarrow>
   fst (ping_connections ok h k conns) ! i
     = (if ok (k + i) then conns ! i @ [PingMessage ping] else conns ! i)"
proof (induction conns arbitrary: k i)
  case Nil
  then show ?case by simp
next
  case (Cons conn conns)
  show ?case
  proof (cases i)
    case 0
    then show ?thesis by (simp add: split_def Let_def)
  next
    case (Suc i')
    with Cons.prems have "i' < length conns" by simp
    from Cons.IH [OF this, of "Suc k"] Suc show ?thesis
      by (simp add: split_def Let_def)
  qed
qed

lemma ping_connections_debug:
  "count_list (snd (ping_connections ok h k conns)) (Debug msg h' j)
   = (if msg = ''Ping Sent'' \<and> h' = h \<and> k \<le> j \<and> j < k + length conns then 1 else 0)"
proof (induction conns arbitrary: k)
  case Nil
  then show ?case by simp
next
  case (Cons conn conns)
  show ?case
    using Cons.IH [of "Suc k"]
    by (auto simp: split_def Let_def)
qed

lemma ping_connections_warn:
  "count_list (snd (ping_connections ok h k conns)) (Warn msg h' j)
   = (if msg = ''Ping Failed'' \<and> h' = h \<and> k \<le> j \<and> j < k + length conns \<and> \<not> ok j then 1 else 0)"
proof (induction conns arbitrary: k)
  case Nil
  then show ?case by simp
next
  case (Cons conn conns)
  show ?case
    using Cons.IH [of "Suc k"]
    by (auto simp: split_def Let_def)
qed

lemma ping_pools_fields:
  "IdCounters (fst (ping_pools ok t hosts)) = IdCounters t \<and>
   RequestBuffer (fst (ping_pools ok t hosts)) = RequestBuffer t \<and>
   Chans (fst (ping_pools ok t hosts)) = Chans t"
  by (induction hosts arbitrary: t) (auto simp: split_def Let_def split: option.splits)

lemma ping_pools_Pools:
  "distinct hosts \<Longrightarrow>
   Pools (fst (ping_pools ok t hosts)) h =
     (if h \<in> set hosts
      then map_option (\<lambda>pool. pool\<lparr>Connections :=
             fst (ping_connections (ok h) h 0 (Connections pool))\<rparr>) (Pools t h)
      else Pools t h)"
proof (induction hosts arbitrary: t)
  case Nil
  then show ?case by simp
next
  case (Cons h0 hs)
  then have d: "distinct hs" and n: "h0 \<notin> set hs" by simp_all
  show ?case
  proof (cases "Pools t h0")
    case None
    then show ?thesis using Cons.IH [OF d, of t] by auto
  next
    case (Some pool)
    let ?t1 = "t\<lparr>Pools := (Pools t)(h0 \<mapsto> pool\<lparr>Connections :=
                  fst (ping_connections (ok h0) h0 0 (Connections pool))\<rparr>)\<rparr>"
    have "fst (ping_pools ok t (h0 # hs)) = fst (ping_pools ok ?t1 hs)"
      using Some by (simp add: split_def Let_def)
    then show ?thesis using Cons.IH [OF d, of ?t1] n Some by auto
  qed
qed

lemma ping_pools_debug:
  "distinct hosts \<Longrightarrow>
   count_list (snd (ping_pools ok t hosts)) (Debug msg h j) =
     (if msg = ''Ping Sent'' \<and> h \<in> set hosts \<and>
         (\<exists>pool. Pools t h = Some pool \<and> j < length (Connections pool)) then 1 else 0)"
proof (induction hosts arbitrary: t)
  case Nil
  then show ?case by simp
next
  case (Cons h0 hs)
  then have d: "distinct hs" and n: "h0 \<notin> set hs" by simp_all
  show ?case
  proof (cases "Pools t h0")
    case None
    then show ?thesis using Cons.IH [OF d, of t] by auto
  next
    case (Some pool)
    let ?t1 = "t\<lparr>Pools := (Pools t)(h0 \<mapsto> pool\<lparr>Connections :=
                  fst (ping_connections (ok h0) h0 0 (Connections pool))\<rparr>)\<rparr>"
    have s: "snd (ping_pools ok t (h0 # hs)) =
        snd (ping_connections (ok h0) h0 0 (Connections pool)) @ snd (ping_pools ok ?t1 hs)"
      using Some by (simp add: split_def Let_def)
    show ?thesis
      unfolding s count_list_append ping_connections_debug Cons.IH [OF d]
      using n Some by auto
  qed
qed

lemma ping_pools_warn:
  "distinct hosts \<Longrightarrow>
   count_list (snd (ping_pools ok t hosts)) (Warn msg h j) =
     (if msg = ''Ping Failed'' \<and> h \<in> set hosts \<and> \<not> ok h j \<and>
         (\<exists>pool. Pools t h = Some pool \<and> j < length (Connections pool)) then 1 else 0)"
proof (induction hosts arbitrary: t)
  case Nil
  then show ?case by simp
next
  case (Cons h0 hs)
  then have d: "distinct hs" and n: "h0 \<notin> set hs" by simp_all
  show ?case
  proof (cases "Pools t h0")
    case None
    then show ?thesis using Cons.IH [OF d, of t] by auto
  next
    case (Some pool)
    let ?t1 = "t\<lparr>Pools := (Pools t)(h0 \<mapsto> pool\<lparr>Connections :=
                  fst (ping_connections (ok h0) h0 0 (Connections pool))\<rparr>)\<rparr>"
    have s: "snd (ping_pools ok t (h0 # hs)) =
        snd (ping_connections (ok h0) h0 0 (Connections pool)) @ snd (ping_pools ok ?t1 hs)"
      using Some by (simp add: split_def Let_def)
    show ?thesis
      unfolding s count_list_append ping_connections_warn Cons.IH [OF d]
      using n Some by auto
  qed
qed

lemma time_Tick_30s:
  "time_Tick (30 * time_Second) now = map (\<lambda>k. (int k + 1) * 30000000000) [0 ..< nat (now div 30000000000)]"
  by (simp add: time_Tick_def time_Second_def)

lemma ping_pools_dom:
  "dom (Pools (fst (ping_pools ok t hosts))) = dom (Pools t)"
proof (induction hosts arbitrary: t)
  case Nil
  then show ?case by simp
next
  case (Cons h0 hs)
  show ?case
  proof (cases "Pools t h0")
    case None
    then show ?thesis using Cons.IH [of t] by simp
  next
    case (Some pool)
    let ?t1 = "t\<lparr>Pools := (Pools t)(h0 \<mapsto> pool\<lparr>Connections :=
                  fst (ping_connections (ok h0) h0 0 (Connections pool))\<rparr>)\<rparr>"
    have e: "fst (ping_pools ok t (h0 # hs)) = fst (ping_pools ok ?t1 hs)"
      using Some by (simp add: split_def Let_def)
    have "dom (Pools ?t1) = dom (Pools t)" using Some by auto
    then show ?thesis unfolding e Cons.IH [of ?t1] .
  qed
qed

lemma setupPing_Cons:
  "setupPing env t (tick # ch) =
     (case setupPing env (fst (ping_pools (snd (env tick)) t (fst (env tick)))) ch of
        Ok (t2, logs2) \<Rightarrow> Ok (t2, snd (ping_pools (snd (env tick)) t (fst (env tick))) @ logs2)
      | Failed err \<Rightarrow> Failed err
      | Fatal \<Rightarrow> Fatal
      | Panic p \<Rightarrow> Panic p)"
  by (simp add: split_def Let_def)

lemma setupPing_returns: "\<exists>t' logs. setupPing env t ch = Ok (t', logs)"
proof (induction ch arbitrary: t)
  case Nil
  then show ?case by simp
next
  case (Cons tick ch)
  from Cons.IH [of "fst (ping_pools (snd (env tick)) t (fst (env tick)))"] show ?case
    unfolding setupPing_Cons by auto
qed

lemma setupPing_rounds:
  assumes "\<forall>tick \<in> set ch. distinct (fst (env tick)) \<and> set (fst (env tick)) = dom (Pools t)"
    and "setupPing env t ch = Ok (t', logs)"
  shows "IdCounters t' = IdCounters t \<and> RequestBuffer t' = RequestBuffer t \<and>
         Chans t' = Chans t \<and> dom (Pools t') = dom (Pools t) \<and>
         (\<forall>h pool. Pools t h = Some pool \<longrightarrow>
            (\<exists>pool'. Pools t' h = Some pool' \<and>
               SendingChannels pool' = SendingChannels pool \<and>
               length (Connections pool') = length (Connections pool) \<and>
               (\<forall>i < length (Connections pool).
                  Connections pool' ! i =
                    Connections pool ! i @
                    replicate (length (filter (\<lambda>tick. snd (env tick) h i) ch)) (PingMessage ping) \<and>
                  count_list logs (Debug ''Ping Sent'' h i) = length ch \<and>
                  count_list logs (Warn ''Ping Failed'' h i) =
                    length (filter (\<lambda>tick. \<not> snd (env tick) h i) ch))))"
  using assms
proof (induction ch arbitrary: t t' logs)
  case Nil
  then show ?case by simp
next
  case (Cons tick ch)
  let ?hs = "fst (env tick)" and ?ok = "snd (env tick)"
  let ?t1 = "fst (ping_pools ?ok t ?hs)" and ?l1 = "snd (ping_pools ?ok t ?hs)"
  from Cons.prems(1) have d: "distinct ?hs" and s: "set ?hs = dom (Pools t)" by simp_all
  have dom1: "dom (Pools ?t1) = dom (Pools t)" by (rule ping_pools_dom)
  from setupPing_returns obtain t2 logs2 where r: "setupPing env ?t1 ch = Ok (t2, logs2)" by blast
  with Cons.prems(2) have t': "t' = t2" and logs: "logs = ?l1 @ logs2"
    unfolding setupPing_Cons by simp_all
  have pre: "\<forall>tick \<in> set ch. distinct (fst (env tick)) \<and> set (fst (env tick)) = dom (Pools ?t1)"
    using Cons.prems(1) dom1 by simp
  note ih = Cons.IH [OF pre r]
  note f1 = ping_pools_fields [of ?ok t ?hs]
  have 1: "IdCounters t' = IdCounters t" "RequestBuffer t' = RequestBuffer t" "Chans t' = Chans t"
    "dom (Pools t') = dom (Pools t)"
    using ih f1 dom1 unfolding t' by simp_all
  have 2: "\<exists>pool'. Pools t' h = Some pool' \<and>
               SendingChannels pool' = SendingChannels pool \<and>
               length (Connections pool') = length (Connections pool) \<and>
               (\<forall>i < length (Connections pool).
                  Connections pool' ! i =
                    Connections pool ! i @
                    replicate (length (filter (\<lambda>tick. snd (env tick) h i) (tick # ch))) (PingMessage ping) \<and>
                  count_list logs (Debug ''Ping Sent'' h i) = length (tick # ch) \<and>
                  count_list logs (Warn ''Ping Failed'' h i) =
                    length (filter (\<lambda>tick. \<not> snd (env tick) h i) (tick # ch)))"
    if p: "Pools t h = Some pool" for h pool
  proof -
    from p s have h: "h \<in> set ?hs" by auto
    let ?pool1 = "pool\<lparr>Connections := fst (ping_connections (?ok h) h 0 (Connections pool))\<rparr>"
    have p1: "Pools ?t1 h = Some ?pool1"
      using ping_pools_Pools [OF d, of ?ok t h] h p by simp
    from ih p1 obtain pool' where
      a: "Pools t2 h = Some pool'" "SendingChannels pool' = SendingChannels ?pool1"
         "length (Connections pool') = length (Connections ?pool1)"
      and b: "\<forall>i < length (Connections ?pool1).
                  Connections pool' ! i =
                    Connections ?pool1 ! i @
                    replicate (length (filter (\<lambda>tick. snd (env tick) h i) ch)) (PingMessage ping) \<and>
                  count_list logs2 (Debug ''Ping Sent'' h i) = length ch \<and>
                  count_list logs2 (Warn ''Ping Failed'' h i) =
                    length (filter (\<lambda>tick. \<not> snd (env tick) h i) ch)"
      by blast
    have c: "Connections pool' ! i =
                    Connections pool ! i @
                    replicate (length (filter (\<lambda>tick. snd (env tick) h i) (tick # ch))) (PingMessage ping) \<and>
                  count_list logs (Debug ''Ping Sent'' h i) = length (tick # ch) \<and>
                  count_list logs (Warn ''Ping Failed'' h i) =
                    length (filter (\<lambda>tick. \<not> snd (env tick) h i) (tick # ch))"
      if i: "i < length (Connections pool)" for i
    proof -
      from i have i1: "i < length (Connections ?pool1)" by simp
      note bi = b [rule_format, OF i1]
      have n: "Connections ?pool1 ! i =
          (if ?ok h i then Connections pool ! i @ [PingMessage ping] else Connections pool ! i)"
        using ping_connections_nth [OF i, of "?ok h" h 0] by simp
      have dbg: "count_list ?l1 (Debug ''Ping Sent'' h i) = 1"
        using ping_pools_debug [OF d, of ?ok t "''Ping Sent''" h i] h p i by simp
      have wrn: "count_list ?l1 (Warn ''Ping Failed'' h i) = (if ?ok h i then 0 else 1)"
        using ping_pools_warn [OF d, of ?ok t "''Ping Failed''" h i] h p i by simp
      have c1: "Connections pool' ! i =
                    Connections pool ! i @
                    replicate (length (filter (\<lambda>tick. snd (env tick) h i) (tick # ch))) (PingMessage ping)"
        using bi n by (simp add: replicate_append_same)
      have c2: "count_list logs (Debug ''Ping Sent'' h i) = length (tick # ch)"
        using bi dbg by (simp add: logs)
      have c3: "count_list logs (Warn ''Ping Failed'' h i) =
                    length (filter (\<lambda>tick. \<not> snd (env tick) h i) (tick # ch))"
        using bi wrn by (simp add: logs)
      from c1 c2 c3 show ?thesis by blast
    qed
    from a c show ?thesis unfolding t' by (intro exI [of _ pool']) simp
  qed
  from 1 2 show ?case by blast
qed

text \<open>
  Claim C8. The keepalive worker that \<^verbatim>\<open>Startup\<close> starts, on its one timer with the
  period of 30 seconds, never ends in a fatal log or a panic, whatever writes fail. With
  the keys of all pools at hand in every round, when the clock reads \<^verbatim>\<open>now\<close> it has
  made exactly one ping write on every connection of every pool for each 30 seconds that
  have passed: \<^verbatim>\<open>Ping Sent\<close> is logged once per tick for the connection, the connection
  has gained exactly one ping message for each tick at which its write succeeded, and
  \<^verbatim>\<open>Ping Failed\<close> is logged once as a warning for each tick at which its write failed.
  The rest of the talker is untouched.
\<close>

theorem keepalive_every_tick:
  "\<exists>t' logs.
     Startup_setupPing env t now = Ok (t', logs) \<and>
     ((\<forall>tick \<in> set (time_Tick (30 * time_Second) now).
         distinct (fst (env tick)) \<and> set (fst (env tick)) = dom (Pools t)) \<longrightarrow>
      IdCounters t' = IdCounters t \<and> RequestBuffer t' = RequestBuffer t \<and>
      Chans t' = Chans t \<and> dom (Pools t') = dom (Pools t) \<and>
      (\<forall>h pool. Pools t h = Some pool \<longrightarrow>
         (\<exists>pool'. Pools t' h = Some pool' \<and>
            SendingChannels pool' = SendingChannels pool \<and>
            length (Connections pool') = length (Connections pool) \<and>
            (\<forall>i < length (Connections pool).
               Connections pool' ! i =
                 Connections pool ! i @
                 replicate (length (filter (\<lambda>tick. snd (env tick) h i)
                                      (time_Tick (30 * time_Second) now)))
                   (PingMessage ping) \<and>
               count_list logs (Debug ''Ping Sent'' h i) = nat (now div 30000000000) \<and>
               count_list logs (Warn ''Ping Failed'' h i) =
                 length (filter (\<lambda>tick. \<not> snd (env tick) h i)
                           (time_Tick (30 * time_Second) now))))))"
proof -
  let ?ch = "time_Tick (30 * time_Second) now"
  from setupPing_returns obtain t' logs where r: "setupPing env t ?ch = Ok (t', logs)" by blast
  have n: "length ?ch = nat (now div 30000000000)" by (simp add: time_Tick_30s)
  have "IdCounters t' = IdCounters t \<and> RequestBuffer t' = RequestBuffer t \<and>
      Chans t' = Chans t \<and> dom (Pools t') = dom (Pools t) \<and>
      (\<forall>h pool. Pools t h = Some pool \<longrightarrow>
         (\<exists>pool'. Pools t' h = Some pool' \<and>
            SendingChannels pool' = SendingChannels pool \<and>
            length (Connections pool') = length (Connections pool) \<and>
            (\<forall>i < length (Connections pool).
               Connections pool' ! i =
                 Connections pool ! i @
                 replicate (length (filter (\<lambda>tick. snd (env tick) h i) ?ch)) (PingMessage ping) \<and>
               count_list logs (Debug ''Ping Sent'' h i) = nat (now div 30000000000) \<and>
               count_list logs (Warn ''Ping Failed'' h i) =
                 length (filter (\<lambda>tick. \<not> snd (env tick) h i) ?ch))))"
    if "\<forall>tick \<in> set ?ch. distinct (fst (env tick)) \<and> set (fst (env tick)) = dom (Pools t)"
    using setupPing_rounds [OF that r] unfolding n .
  with r show ?thesis unfolding Startup_setupPing_def by blast
qed

lemma time_Tick_example:
  "time_Tick (30 * time_Second) 75000000000 = [30000000000, 60000000000]"
  by (simp add: time_Tick_def time_Second_def upt_rec)

theorem keepalive_every_tick_witness:
  "time_Tick (30 * time_Second) 75000000000 = [30000000000, 60000000000] \<and>
   (\<exists>t' logs pool'.
      Startup_setupPing example_env (Startup [''h1''] 2) 75000000000 = Ok (t', logs) \<and>
      Pools t' ''h1'' = Some pool' \<and>
      Connections pool' ! 0 = [PingMessage ping, PingMessage ping] \<and>
      Connections pool' ! 1 = [PingMessage ping] \<and>
      count_list logs (Debug ''Ping Sent'' ''h1'' 0) = 2 \<and>
      count_list logs (Debug ''Ping Sent'' ''h1'' 1) = 2 \<and>
      count_list logs (Warn ''Ping Failed'' ''h1'' 0) = 0 \<and>
      count_list logs (Warn ''Ping Failed'' ''h1'' 1) = 1)"
proof -
  let ?t = "Startup [''h1''] 2"
  let ?pool = "\<lparr>Connections = [[], []], SendingChannels = [[], []]\<rparr>"
  have hyp: "\<forall>tick \<in> set (time_Tick (30 * time_Second) 75000000000).
      distinct (fst (example_env tick)) \<and> set (fst (example_env tick)) = dom (Pools ?t)"
    by (simp add: example_env_def Startup_h1)
  have p: "Pools ?t ''h1'' = Some ?pool" by (simp add: Startup_h1)
  from keepalive_every_tick [of example_env ?t 75000000000] hyp p
  obtain t' logs pool' where
    r: "Startup_setupPing example_env ?t 75000000000 = Ok (t', logs)"
    and p': "Pools t' ''h1'' = Some pool'"
    and c: "\<forall>i < length (Connections ?pool).
               Connections pool' ! i =
                 Connections ?pool ! i @
                 replicate (length (filter (\<lambda>tick. snd (example_env tick) ''h1'' i)
                                      (time_Tick (30 * time_Second) 75000000000)))
                   (PingMessage ping) \<and>
               count_list logs (Debug ''Ping Sent'' ''h1'' i) = nat (75000000000 div 30000000000) \<and>
               count_list logs (Warn ''Ping Failed'' ''h1'' i) =
                 length (filter (\<lambda>tick. \<not> snd (example_env tick) ''h1'' i)
                           (time_Tick (30 * time_Second) 75000000000))"
    by blast
  from c have c0: "Connections pool' ! 0 = [PingMessage ping, PingMessage ping]"
    "count_list logs (Debug ''Ping Sent'' ''h1'' 0) = 2"
    "count_list logs (Warn ''Ping Failed'' ''h1'' 0) = 0"
    by (simp_all add: time_Tick_example example_env_def numeral_2_eq_2)
  have "(1::nat) < length (Connections ?pool)" by simp
  with c have c1: "Connections pool' ! 1 = [PingMessage ping]"
    "count_list logs (Debug ''Ping Sent'' ''h1'' 1) = 2"
    "count_list logs (Warn ''Ping Failed'' ''h1'' 1) = 1"
    by (simp_all add: time_Tick_example example_env_def)
  from time_Tick_example r p' c0 c1 show ?thesis by blast
qed

end
